theory Spec2Isabelle
  imports Complex_Main "HOL-Library.Multiset" "HOL-Library.Product_Lexorder"
    "HOL-Library.Option_ord"
begin

unbundle bit_operations_syntax

section \<open>Path selection of SOL: a shallow embedding\<close>

text \<open>
  The module implements the path selection (pruning) strategies of SOL: random and
  \<open>k\<close>-shortest selection, resource scoring, the ILP and iterative selectors and
  simulated annealing with its expel and replace kernels.

  Conventions of the embedding.
  \<^item> A numpy array of integers or booleans is an \<open>int list\<close>; \<open>False\<close> and \<open>0.0\<close>
    are \<open>0\<close>, \<open>True\<close> and \<open>1.0\<close> are \<open>1\<close>.
  \<^item> Python floats are real numbers; rounding is not modelled. The operator \<open>/\<close> is
    true division and raises \<open>ZeroDivisionError\<close> on a zero divisor.
  \<^item> An exception is a value \<open>Inl e\<close> of the sum type \<open>error + 'a\<close>.
  \<^item> The random generator, the solver and the clustering library are parameters:
    the draws, the solver's answers and the fitted clusters are inputs of the model.
\<close>

subsection \<open>Exceptions\<close>

datatype error =
    ValueError
  | KeyError
  | IndexError
  | ZeroDivisionError
  | UnboundLocalError
  | StopIteration
  | NameError
  | AttributeError
  | SOLException
  | InvalidConfigException

type_synonym ndarray = "int list"

subsection \<open>Acceptance probability\<close>

text \<open>
  \<^verbatim>\<open>_saprob(oldo, newo, temp)\<close>: \<^verbatim>\<open>return 1 if oldo <= newo else 0\<close>.
  The arguments are the objective states of two optimizations, compared by \<open>\<le>\<close>.
\<close>

definition saprob :: "'a::ord \<Rightarrow> 'a \<Rightarrow> 'b \<Rightarrow> real" where
  "saprob oldo newo temp = (if oldo \<le> newo then 1 else 0)"

subsection \<open>Paths and resource scores\<close>

text \<open>
  Modelled from the spec: the class \<open>Path\<close> of \<open>sol.path.paths\<close> is missing from the
  sources. A path is the ordered sequence of its node identifiers, its length is the
  node count, and its links are the pairs of consecutive nodes.
\<close>

type_synonym path = "int list"

datatype node_or_link = Node int | Link int int

definition nodes :: "path \<Rightarrow> node_or_link list" where
  "nodes p = map Node p"

definition links :: "path \<Rightarrow> node_or_link list" where
  "links p = map (\<lambda>(u, v). Link u v) (zip p (tl p))"

definition chain :: "'a list \<Rightarrow> 'a list \<Rightarrow> 'a list" where
  "chain xs ys = xs @ ys"

text \<open>
  Modelled from the spec: the class \<open>Topology\<close> of \<open>sol.topology.topologynx\<close> is missing
  from the sources. A topology has a name, a number of nodes, a resource dictionary
  (name to capacity) for every node and link, the total of every resource over all nodes
  and links, and a diameter.
\<close>

record 'r topology =
  name :: string
  num_nodes :: nat
  get_resources :: "node_or_link \<Rightarrow> 'r \<rightharpoonup> real"
  total_resource :: "'r \<Rightarrow> real"
  diameter :: real

text \<open>\<^verbatim>\<open>dict.get(key, default)\<close>.\<close>

definition dict_get :: "('k \<rightharpoonup> 'v) \<Rightarrow> 'k \<Rightarrow> 'v \<Rightarrow> 'v" where
  "dict_get m k dflt = (case m k of None \<Rightarrow> dflt | Some v \<Rightarrow> v)"

text \<open>Python's \<^verbatim>\<open>max\<close> of an iterable: \<open>ValueError\<close> when it is empty.\<close>

definition py_max :: "real list \<Rightarrow> error + real" where
  "py_max xs = (case xs of [] \<Rightarrow> Inl ValueError | x # ys \<Rightarrow> Inr (fold max ys x))"

definition py_div :: "real \<Rightarrow> real \<Rightarrow> error + real" where
  "py_div a b = (if b = 0 then Inl ZeroDivisionError else Inr (a / b))"

text \<open>
  One round of the loop of \<^verbatim>\<open>compute_score\<close>, for the resource \<open>r\<close> of weight \<open>w\<close>:
  \<^verbatim>\<open>score += max(t.get_resources(n).get(r, 0) for n in chain(p.nodes(), p.links()))
              / norm[r] * weights[r] - len(p) / d\<close>.
  The dictionary \<^verbatim>\<open>norm\<close> is \<open>nrm\<close>.
\<close>

definition score_step ::
  "'r topology \<Rightarrow> path \<Rightarrow> ('r \<rightharpoonup> real) \<Rightarrow> real \<Rightarrow> real \<Rightarrow> 'r \<times> real
     \<Rightarrow> error + real" where
  "score_step t p nrm d score rw =
     (case py_max (map (\<lambda>n. dict_get (get_resources t n) (fst rw) 0) (chain (nodes p) (links p))) of
        Inl e \<Rightarrow> Inl e
      | Inr m \<Rightarrow>
         (case nrm (fst rw) of
            None \<Rightarrow> Inl KeyError
          | Some nr \<Rightarrow>
             (case py_div m nr of
                Inl e \<Rightarrow> Inl e
              | Inr q \<Rightarrow>
                 (case py_div (real (length p)) d of
                    Inl e \<Rightarrow> Inl e
                  | Inr pen \<Rightarrow> Inr (score + (q * snd rw - pen))))))"

text \<open>
  \<^verbatim>\<open>compute_score(p, t, weights, norm, d)\<close>. The dictionary \<open>weights\<close> is the list of
  its items in iteration order; the keys of a dictionary are distinct.
\<close>

fun score_loop ::
  "'r topology \<Rightarrow> path \<Rightarrow> ('r \<rightharpoonup> real) \<Rightarrow> real \<Rightarrow> real \<Rightarrow> ('r \<times> real) list
     \<Rightarrow> error + real" where
  "score_loop t p nrm d score [] = Inr score"
| "score_loop t p nrm d score (rw # rest) =
     (case score_step t p nrm d score rw of
        Inl e \<Rightarrow> Inl e
      | Inr score' \<Rightarrow> score_loop t p nrm d score' rest)"

definition compute_score ::
  "path \<Rightarrow> 'r topology \<Rightarrow> ('r \<times> real) list \<Rightarrow> ('r \<rightharpoonup> real) \<Rightarrow> real
     \<Rightarrow> error + real" where
  "compute_score p t weights nrm d = score_loop t p nrm d 0 weights"

text \<open>The greatest amount of resource \<open>r\<close> over the nodes and links of a path.\<close>

definition max_resource :: "'r topology \<Rightarrow> path \<Rightarrow> 'r \<Rightarrow> real" where
  "max_resource t p r =
     Max ((\<lambda>n. dict_get (get_resources t n) r 0) ` set (chain (nodes p) (links p)))"

text \<open>
  The score as the specification writes it: the sum over the resources of the normalised,
  weighted maximum, minus the length penalty \<open>len(p)/d\<close> once.
\<close>

definition spec_score ::
  "path \<Rightarrow> 'r topology \<Rightarrow> ('r \<times> real) list \<Rightarrow> ('r \<rightharpoonup> real) \<Rightarrow> real \<Rightarrow> real" where
  "spec_score p t weights nrm d =
     (\<Sum>(r, w) \<leftarrow> weights. max_resource t p r / the (nrm r) * w) - real (length p) / d"

subsection \<open>The solver\<close>

text \<open>
  The optimization returned by \<^verbatim>\<open>compose_apps\<close> is opaque. The model records the calls a
  selector makes on it, in order, and takes the solver's answers as inputs.
\<close>

datatype opt_call =
    Cap_num_paths int
  | Solve
  | Write string
  | Write_solution string
  | Get_chosen_paths

subsection \<open>Selection by the ILP\<close>

text \<open>
  \<^verbatim>\<open>select_ilp(apps, topo, network_config, num_paths, debug, ...)\<close>. The input \<open>solved\<close>
  is the answer of \<^verbatim>\<open>opt.is_solved()\<close> after \<^verbatim>\<open>opt.solve()\<close>. The result is the list of
  calls made on the optimization and the outcome: \<open>SOLException\<close> when the problem is
  not solved. The measured times are not modelled.
\<close>

definition select_ilp :: "'r topology \<Rightarrow> int \<Rightarrow> bool \<Rightarrow> bool \<Rightarrow> opt_call list \<times> (error + unit)" where
  "select_ilp topo num_paths debug solved =
     (let calls = [Cap_num_paths ((int (num_nodes topo) - 1) ^ 2 * num_paths), Solve];
          calls = (if debug then calls @ [Write (''debug/select_ilp_'' @ name topo)] else calls)
      in if \<not> solved then (calls, Inl SOLException)
         else
           (let calls =
                  (if debug
                   then calls @ [Write_solution (''debug/select_ilp_solution_'' @ name topo)]
                   else calls)
            in (calls @ [Get_chosen_paths], Inr ())))"

subsection \<open>Clustering of traffic classes\<close>

text \<open>The class \<^verbatim>\<open>TrafficClass\<close>, with the volumes per epoch.\<close>

record traffic_class =
  ID :: int
  priority :: int
  src :: int
  dst :: int
  tc_name :: string
  volFlows :: "real list"

text \<open>\<^verbatim>\<open>rows[i]\<close> for \<open>i\<close> from \<^verbatim>\<open>enumerate\<close>: \<open>IndexError\<close> beyond the last row.\<close>

definition row_at :: "'a list \<Rightarrow> nat \<Rightarrow> error + 'a" where
  "row_at rows i = (if i < length rows then Inr (rows ! i) else Inl IndexError)"

text \<open>
  \<^verbatim>\<open>for i, tc in enumerate(tcs): tc.volFlows = ma.array(rows[i])\<close>, from position \<open>i\<close>.
\<close>

fun assign_rows :: "real list list \<Rightarrow> nat \<Rightarrow> traffic_class list \<Rightarrow> error + traffic_class list" where
  "assign_rows rows i [] = Inr []"
| "assign_rows rows i (tc # tcs) =
     (case row_at rows i of
        Inl e \<Rightarrow> Inl e
      | Inr v \<Rightarrow>
         (case assign_rows rows (Suc i) tcs of
            Inl e \<Rightarrow> Inl e
          | Inr tcs' \<Rightarrow> Inr (tc\<lparr>volFlows := v\<rparr> # tcs')))"

text \<open>
  \<^verbatim>\<open>volumes.T[ag.labels_ == bucket, :]\<close>: the rows of the transposed volumes whose label
  is the bucket; and the maximum along axis 0, which raises \<open>ValueError\<close> when no row is
  selected.
\<close>

definition bucket_rows :: "real list list \<Rightarrow> nat list \<Rightarrow> nat \<Rightarrow> real list list" where
  "bucket_rows rows labels bucket = map fst (filter (\<lambda>(row, l). l = bucket) (zip rows labels))"

definition max_axis0 :: "real list list \<Rightarrow> error + real list" where
  "max_axis0 rows =
     (case rows of [] \<Rightarrow> Inl ValueError
      | r # rs \<Rightarrow> Inr (fold (\<lambda>row acc. map (\<lambda>(a, b). max a b) (zip acc row)) rs r))"

fun averaged :: "real list list \<Rightarrow> nat list \<Rightarrow> nat list \<Rightarrow> error + real list list" where
  "averaged rows labels [] = Inr []"
| "averaged rows labels (bucket # buckets) =
     (case max_axis0 (bucket_rows rows labels bucket) of
        Inl e \<Rightarrow> Inl e
      | Inr av \<Rightarrow>
         (case averaged rows labels buckets of
            Inl e \<Rightarrow> Inl e
          | Inr avs \<Rightarrow> Inr (av # avs)))"

text \<open>
  \<^verbatim>\<open>cluster_tcs(tcs, num_clusters, method)\<close>. The fitted models of scikit-learn are
  parameters: \<open>kmeans n samples\<close> is \<^verbatim>\<open>cluster_centers_\<close> and \<open>agg n samples\<close> is
  \<^verbatim>\<open>labels_\<close> after fitting \<open>n\<close> clusters to the samples (the transposed volumes), or
  the exception of the library. The volumes of all traffic classes have the same number
  of epochs. The result is the list of traffic classes with the new volumes.
\<close>

definition cluster_tcs ::
  "(nat \<Rightarrow> real list list \<Rightarrow> error + real list list) \<Rightarrow> (nat \<Rightarrow> real list list \<Rightarrow> error + nat list)
     \<Rightarrow> traffic_class list \<Rightarrow> nat \<Rightarrow> string \<Rightarrow> error + traffic_class list" where
  "cluster_tcs kmeans agg tcs num_clusters method =
     (let volumes = map volFlows tcs in
      if method = ''kmeans'' then
        (case kmeans num_clusters (transpose volumes) of
           Inl e \<Rightarrow> Inl e
         | Inr cluster_centers \<Rightarrow> assign_rows (transpose cluster_centers) 0 tcs)
      else if method = ''agg'' then
        (case agg num_clusters (transpose volumes) of
           Inl e \<Rightarrow> Inl e
         | Inr labels \<Rightarrow>
            (case averaged (transpose volumes) labels [0..<num_clusters] of
               Inl e \<Rightarrow> Inl e
             | Inr avm \<Rightarrow>
                if avm = [] then Inl ValueError
                else assign_rows (transpose avm) 0 tcs))
      else Inl ValueError)"

subsection \<open>Arrays\<close>

text \<open>
  \<^verbatim>\<open>ones(n)\<close>; \<^verbatim>\<open>a[idx] = v\<close> for a list \<open>idx\<close> of positions of \<open>a\<close>; \<^verbatim>\<open>(a == 0).sum()\<close>;
  and the slice \<^verbatim>\<open>a[:j]\<close>, where a negative \<open>j\<close> counts from the end. The positions
  written by \<^verbatim>\<open>a[idx] = v\<close> are always positions of \<open>a\<close> in this module: they come from
  \<^verbatim>\<open>argsort\<close>, from \<^verbatim>\<open>choice\<close> or from an enumeration of \<open>a\<close> itself.
\<close>

definition ones :: "nat \<Rightarrow> ndarray" where
  "ones n = replicate n 1"

definition assign_at :: "ndarray \<Rightarrow> nat list \<Rightarrow> int \<Rightarrow> ndarray" where
  "assign_at a idx v = fold (\<lambda>i acc. acc[i := v]) idx a"

definition count_zero :: "ndarray \<Rightarrow> nat" where
  "count_zero a = length (filter (\<lambda>v. v = 0) a)"

definition slice_to :: "'a list \<Rightarrow> int \<Rightarrow> 'a list" where
  "slice_to xs j = (if 0 \<le> j then take (nat j) xs else take (length xs - nat (- j)) xs)"

text \<open>
  \<^verbatim>\<open>bitwise_xor(a, b)\<close> on one-dimensional arrays: element by element when the lengths
  agree, an array of length one is broadcast, and other shapes raise \<open>ValueError\<close>.
\<close>

definition bitwise_xor :: "ndarray \<Rightarrow> ndarray \<Rightarrow> error + ndarray" where
  "bitwise_xor a b =
     (if length a = length b then Inr (map (\<lambda>(x, y). x XOR y) (zip a b))
      else if length a = 1 then Inr (map (\<lambda>y. hd a XOR y) b)
      else if length b = 1 then Inr (map (\<lambda>x. x XOR hd b) a)
      else Inl ValueError)"

subsection \<open>Random draws\<close>

text \<open>
  The outcomes of the random generators are inputs. \<open>choices\<close> lists the results of
  the successive calls of \<^verbatim>\<open>numpy.random.choice(population, size, replace=False)\<close>, which
  are \<open>size\<close> elements of the population at distinct positions; \<open>uniforms\<close> lists the
  results of the successive calls of \<^verbatim>\<open>random.random()\<close>, which lie in \<open>[0, 1)\<close>.
  \<open>tree_combs\<close> lists the index sets that the successive loops
  \<^verbatim>\<open>while len(comb) < replace_len: comb.add(next(tree))\<close> collect from the path trees.
\<close>

record draws =
  choices :: "nat \<Rightarrow> nat list"
  uniforms :: "nat \<Rightarrow> real"
  tree_combs :: "nat \<Rightarrow> nat list"

definition next_choice :: "draws \<Rightarrow> nat list \<times> draws" where
  "next_choice g = (choices g 0, g\<lparr>choices := \<lambda>i. choices g (Suc i)\<rparr>)"

definition next_uniform :: "draws \<Rightarrow> real \<times> draws" where
  "next_uniform g = (uniforms g 0, g\<lparr>uniforms := \<lambda>i. uniforms g (Suc i)\<rparr>)"

definition next_tree_comb :: "draws \<Rightarrow> nat list \<times> draws" where
  "next_tree_comb g = (tree_combs g 0, g\<lparr>tree_combs := \<lambda>i. tree_combs g (Suc i)\<rparr>)"

text \<open>
  A valid outcome of \<^verbatim>\<open>choice(population, k, replace=False)\<close>: the elements at \<open>k\<close>
  distinct positions of the population, in some order.
\<close>

definition valid_choice :: "nat list \<Rightarrow> nat \<Rightarrow> nat list \<Rightarrow> bool" where
  "valid_choice population k c \<longleftrightarrow>
     (\<exists>ps. length ps = k \<and> distinct ps \<and> set ps \<subseteq> {0..<length population}
            \<and> c = map (\<lambda>i. population ! i) ps)"

subsection \<open>Paths per traffic class\<close>

text \<open>
  Modelled from the spec: the class \<open>PPTC\<close> of \<open>sol.path.paths\<close> is missing from the
  sources. It maps every traffic class to the sequence of its candidate paths and a mask
  of the same length, where 1 hides a path and 0 selects it. The model lists the
  entries in the iteration order of \<^verbatim>\<open>tcs()\<close>; the traffic classes of the entries are
  distinct. \<^verbatim>\<open>mask(tc, m)\<close> replaces the mask of an entry, \<^verbatim>\<open>unmask(tc)\<close> makes every
  path visible, \<^verbatim>\<open>num_paths(tc, all=True)\<close> is the number of candidates, and
  \<^verbatim>\<open>max_paths(all=True)\<close> is the greatest number of candidates of a traffic class.
\<close>

type_synonym pptc = "(traffic_class \<times> path list \<times> ndarray) list"

definition unmask :: "path list \<Rightarrow> ndarray" where
  "unmask ps = replicate (length ps) 0"

definition max_paths :: "pptc \<Rightarrow> nat" where
  "max_paths pptc = fold max (map (\<lambda>(tc, ps, m). length ps) pptc) 0"

subsection \<open>Random selection\<close>

text \<open>
  \<^verbatim>\<open>choose_rand(pptc, num_paths)\<close>. \<^verbatim>\<open>choice\<close> raises \<open>ValueError\<close> for a negative
  number of samples.
\<close>

fun choose_rand :: "pptc \<Rightarrow> int \<Rightarrow> draws \<Rightarrow> error + (pptc \<times> draws)" where
  "choose_rand [] num_paths g = Inr ([], g)"
| "choose_rand ((tc, ps, m) # rest) num_paths g =
     (let n = length ps in
      if int n > num_paths then
        (if num_paths < 0 then Inl ValueError
         else
           (let (c, g') = next_choice g;
                msk = assign_at (ones n) c 0
            in case choose_rand rest num_paths g' of
                 Inl e \<Rightarrow> Inl e
               | Inr (rest', g'') \<Rightarrow> Inr ((tc, ps, msk) # rest', g'')))
      else
        (case choose_rand rest num_paths g of
           Inl e \<Rightarrow> Inl e
         | Inr (rest', g') \<Rightarrow> Inr ((tc, ps, unmask ps) # rest', g')))"

text \<open>
  The number of calls of \<^verbatim>\<open>choice\<close> that \<^verbatim>\<open>choose_rand\<close> makes before it reaches
  entry \<open>j\<close>: one for every earlier traffic class with more than \<open>num_paths\<close> paths.
\<close>

definition draws_before :: "pptc \<Rightarrow> int \<Rightarrow> nat \<Rightarrow> nat" where
  "draws_before pptc num_paths j =
     length (filter (\<lambda>(tc, ps, m). int (length ps) > num_paths) (take j pptc))"

text \<open>
  The entry that \<^verbatim>\<open>choose_rand\<close> leaves for a traffic class when \<^verbatim>\<open>choice\<close> returns
  \<open>c\<close> for it.
\<close>

definition rand_entry :: "int \<Rightarrow> nat list \<Rightarrow> traffic_class \<times> path list \<times> ndarray \<Rightarrow> traffic_class \<times> path list \<times> ndarray" where
  "rand_entry k c e = (case e of (tc, ps, m) \<Rightarrow>
      (tc, ps, if int (length ps) > k then assign_at (ones (length ps)) c 0 else unmask ps))"

subsection \<open>Shortest paths\<close>

text \<open>
  \<^verbatim>\<open>numpy.argsort\<close> is a parameter of the model. Its contract: the result is a
  permutation of the positions of the array that lists the values in ascending order.
  The default sort kind of numpy is not stable, so the contract does not say how equal
  values are ordered. The sort itself is modelled after this subsection.
\<close>

definition argsort_ok :: "real list \<Rightarrow> nat list \<Rightarrow> bool" where
  "argsort_ok vals ind \<longleftrightarrow>
     mset ind = mset [0..<length vals] \<and> sorted (map (\<lambda>i. vals ! i) ind)"

text \<open>\<^verbatim>\<open>array([len(x) for x in pptc.all_paths(tc)])\<close>.\<close>

definition path_lengths :: "path list \<Rightarrow> real list" where
  "path_lengths ps = map (\<lambda>x. real (length x)) ps"

text \<open>One round of the loop of \<^verbatim>\<open>k_shortest_paths\<close>: the order \<open>ind\<close> and the new mask.\<close>

definition shortest_round :: "(real list \<Rightarrow> nat list) \<Rightarrow> path list \<Rightarrow> int \<Rightarrow> nat list \<times> ndarray" where
  "shortest_round argsort ps num_paths =
     (let lens = path_lengths ps;
          ind = argsort lens;
          msk = ones (length ps)
      in (ind, assign_at msk (slice_to ind (min num_paths (int (length msk)))) 0))"

text \<open>
  \<^verbatim>\<open>k_shortest_paths(pptc, num_paths)\<close>: the masked PPTC and the returned dictionary
  \<^verbatim>\<open>inds\<close> of the orders, in the iteration order of the traffic classes.
\<close>

definition k_shortest_paths ::
  "(real list \<Rightarrow> nat list) \<Rightarrow> pptc \<Rightarrow> int \<Rightarrow> pptc \<times> (traffic_class \<times> nat list) list" where
  "k_shortest_paths argsort pptc num_paths =
     (map (\<lambda>(tc, ps, m). (tc, ps, snd (shortest_round argsort ps num_paths))) pptc,
      map (\<lambda>(tc, ps, m). (tc, fst (shortest_round argsort ps num_paths))) pptc)"

text \<open>
  The order of the specification: ascending length, ties broken by the original index.
\<close>

definition length_index_order :: "path list \<Rightarrow> nat list" where
  "length_index_order ps = sort_key (\<lambda>i. (length (ps ! i), i)) [0..<length ps]"

subsection \<open>The sort behind \<^verbatim>\<open>argsort\<close>\<close>

text \<open>
  numpy is not part of the repository. \<^verbatim>\<open>argsort(lens)\<close> is called with the default
  kind, \<^verbatim>\<open>quicksort\<close>, which for an array of integers is \<^verbatim>\<open>aquicksort\<close> of numpy's
  \<^verbatim>\<open>npysort\<close>: it sorts the array \<^verbatim>\<open>tosort\<close> of positions, initially \<open>0, \<dots>, n - 1\<close>,
  by the values \<^verbatim>\<open>v\<close>. A segment \<open>pl..pr\<close> with \<open>pr - pl > 16\<close> is partitioned around the
  median of its first, middle and last value and the two parts are sorted in turn;
  a shorter segment is sorted by insertion. The functions below work on one segment,
  so that \<open>pl\<close> is position 0 and \<open>pr\<close> the last position; \<open>ip\<close>, \<open>jp\<close>, \<open>kp\<close> stand for
  the pointers \<^verbatim>\<open>pi\<close>, \<^verbatim>\<open>pj\<close>, \<^verbatim>\<open>pk\<close>. The switch to heapsort of later versions, after
  \<open>2 * floor(log2 n)\<close> nested partitions, is not modelled, and neither are the builds
  of numpy that sort with vector instructions, which order equal values in another
  way.
\<close>

text \<open>\<^verbatim>\<open>INTP_SWAP(*pi, *pj)\<close>.\<close>

definition swap_at :: "nat list \<Rightarrow> nat \<Rightarrow> nat \<Rightarrow> nat list" where
  "swap_at ts i j = ts[i := ts ! j, j := ts ! i]"

text \<open>The three conditional swaps that order the values at \<open>pl\<close>, \<open>pm\<close> and \<open>pr\<close>.\<close>

definition median_of_three :: "real list \<Rightarrow> nat list \<Rightarrow> nat \<Rightarrow> nat \<Rightarrow> nat list" where
  "median_of_three v ts pm pr =
     (let ts1 = (if v ! (ts ! pm) < v ! (ts ! 0) then swap_at ts pm 0 else ts);
          ts2 = (if v ! (ts1 ! pr) < v ! (ts1 ! pm) then swap_at ts1 pr pm else ts1)
      in if v ! (ts2 ! pm) < v ! (ts2 ! 0) then swap_at ts2 pm 0 else ts2)"

text \<open>
  \<^verbatim>\<open>do { ++pi; } while (v[*pi] < vp)\<close> and \<^verbatim>\<open>do { --pj; } while (vp < v[*pj])\<close>. In the C
  code the scans are stopped by the pivot, stored at \<open>pr - 1\<close>, and by the value at
  \<open>pl\<close>; the model also stops them at the ends of the segment.
\<close>

function scan_up :: "real list \<Rightarrow> real \<Rightarrow> nat list \<Rightarrow> nat \<Rightarrow> nat" where
  "scan_up v vp ts ip =
     (if ip + 1 < length ts \<and> v ! (ts ! (ip + 1)) < vp then scan_up v vp ts (ip + 1) else ip + 1)"
  by pat_completeness auto
termination
  by (relation "measure (\<lambda>(v, vp, ts, ip). length ts - ip)") auto

declare scan_up.simps [simp del]

fun scan_down :: "real list \<Rightarrow> real \<Rightarrow> nat list \<Rightarrow> nat \<Rightarrow> nat" where
  "scan_down v vp ts 0 = 0"
| "scan_down v vp ts (Suc jp) =
     (if 0 < jp \<and> vp < v ! (ts ! jp) then scan_down v vp ts jp else jp)"

text \<open>
  The loop \<^verbatim>\<open>for (;;)\<close> of the partition: both scans, then a swap unless the pointers
  have met. It returns the array and the final \<^verbatim>\<open>pi\<close>.
\<close>

function partition_loop :: "real list \<Rightarrow> real \<Rightarrow> nat list \<Rightarrow> nat \<Rightarrow> nat \<Rightarrow> nat list \<times> nat" where
  "partition_loop v vp ts ip jp =
     (let ip' = scan_up v vp ts ip; jp' = scan_down v vp ts jp
      in if ip' \<ge> jp' then (ts, ip') else partition_loop v vp (swap_at ts ip' jp') ip' jp')"
  by pat_completeness auto
termination
proof (relation "measure (\<lambda>(v, vp, ts, ip, jp). jp - ip)")
  show "wf (measure (\<lambda>(v, vp, ts, ip, jp). jp - ip))" by simp
next
  fix v vp ts ip jp x xa
  assume a: "x = scan_up v vp ts ip" "xa = scan_down v vp ts jp" "\<not> xa \<le> x"
  have up: "ip < scan_up v vp ts ip"
    by (induction v vp ts ip rule: scan_up.induct) (subst scan_up.simps, auto)
  have down: "scan_down v vp ts jp \<le> jp"
    by (induction v vp ts jp rule: scan_down.induct) auto
  from a up down
  show "((v, vp, swap_at ts x xa, x, xa), v, vp, ts, ip, jp) \<in> measure (\<lambda>(v, vp, ts, ip, jp). jp - ip)"
    by simp
qed

declare partition_loop.simps [simp del]

text \<open>
  One partition of a segment: the median of three, the pivot moved to \<open>pr - 1\<close>, the
  loop, and the pivot moved to its place \<^verbatim>\<open>pi\<close>, which is returned with the array.
\<close>

definition quicksort_partition :: "real list \<Rightarrow> nat list \<Rightarrow> nat list \<times> nat" where
  "quicksort_partition v ts =
     (let pr = length ts - 1;
          pm = pr div 2;
          ts1 = median_of_three v ts pm pr;
          vp = v ! (ts1 ! pm);
          (ts2, ip) = partition_loop v vp (swap_at ts1 pm (pr - 1)) 0 (pr - 1)
      in (swap_at ts2 ip (pr - 1), ip))"

text \<open>
  The insertion sort: \<^verbatim>\<open>while (pj > pl && v[vi] < v[*pk]) *pj-- = *pk--\<close>, then
  \<^verbatim>\<open>*pj = vi\<close>, for every \<^verbatim>\<open>pi\<close> from \<open>pl + 1\<close> to \<open>pr\<close>.
\<close>

fun shift_up :: "real list \<Rightarrow> real \<Rightarrow> nat list \<Rightarrow> nat \<Rightarrow> nat list \<times> nat" where
  "shift_up v vp ts 0 = (ts, 0)"
| "shift_up v vp ts (Suc kp) =
     (if vp < v ! (ts ! kp) then shift_up v vp (ts[Suc kp := ts ! kp]) kp else (ts, Suc kp))"

function insertion_loop :: "real list \<Rightarrow> nat list \<Rightarrow> nat \<Rightarrow> nat \<Rightarrow> nat list" where
  "insertion_loop v ts pr ip =
     (if ip \<le> pr
      then (let vi = ts ! ip; (ts', jp) = shift_up v (v ! vi) ts ip
            in insertion_loop v (ts'[jp := vi]) pr (ip + 1))
      else ts)"
  by pat_completeness auto
termination
  by (relation "measure (\<lambda>(v, ts, pr, ip). pr + 1 - ip)") auto

declare insertion_loop.simps [simp del]

definition insertion_sort :: "real list \<Rightarrow> nat list \<Rightarrow> nat list" where
  "insertion_sort v ts = (if ts = [] then ts else insertion_loop v ts (length ts - 1) 1)"

text \<open>
  \<^verbatim>\<open>aquicksort\<close> on one segment. The C code keeps the segments still to sort on a
  stack; they do not overlap, so each is sorted on its own.
\<close>

function aquicksort :: "real list \<Rightarrow> nat list \<Rightarrow> nat list" where
  "aquicksort v ts =
     (if 16 < int (length ts) - 1
      then (let (ts', ip) = quicksort_partition v ts
            in aquicksort v (take ip ts') @ [ts' ! ip] @ aquicksort v (drop (ip + 1) ts'))
      else insertion_sort v ts)"
  by pat_completeness auto
termination
proof -
  have len_loop: "length (fst (partition_loop v vp ts ip jp)) = length ts" for v vp ts ip jp
  proof (induction v vp ts ip jp rule: partition_loop.induct)
    case (1 v vp ts ip jp)
    show ?case
    proof (cases "scan_down v vp ts jp \<le> scan_up v vp ts ip")
      case True
      then show ?thesis by (subst partition_loop.simps) (simp add: Let_def)
    next
      case False
      from 1[OF refl refl False] False show ?thesis
        by (subst partition_loop.simps) (simp add: Let_def swap_at_def)
    qed
  qed
  have up_le: "scan_up v vp ts ip \<le> s"
    if "ip < s" "s < length ts" "\<not> v ! (ts ! s) < vp" for v vp ts ip s
    using that
  proof (induction v vp ts ip rule: scan_up.induct)
    case (1 v vp ts ip)
    show ?case
    proof (cases "ip + 1 < length ts \<and> v ! (ts ! (ip + 1)) < vp")
      case True
      with 1(4) have "ip + 1 \<noteq> s" by auto
      with 1(2) have "ip + 1 < s" by simp
      from 1(1)[OF True this 1(3) 1(4)] True show ?thesis by (subst scan_up.simps) simp
    next
      case False
      with 1(2) show ?thesis by (subst scan_up.simps) auto
    qed
  qed
  have up_stop: "\<not> v ! (ts ! scan_up v vp ts ip) < vp"
    if "scan_up v vp ts ip < length ts" for v vp ts ip
    using that
  proof (induction v vp ts ip rule: scan_up.induct)
    case (1 v vp ts ip)
    show ?case
    proof (cases "ip + 1 < length ts \<and> v ! (ts ! (ip + 1)) < vp")
      case True
      then have e: "scan_up v vp ts ip = scan_up v vp ts (ip + 1)" by (subst scan_up.simps) simp
      from 1(1)[OF True] 1(2) show ?thesis unfolding e by simp
    next
      case False
      then have e: "scan_up v vp ts ip = ip + 1" by (subst scan_up.simps) auto
      from False 1(2) show ?thesis unfolding e by auto
    qed
  qed
  have down_le: "scan_down v vp ts jp \<le> jp" for v vp ts jp
    by (induction v vp ts jp rule: scan_down.induct) auto
  have loop_le: "snd (partition_loop v vp ts ip jp) \<le> s"
    if "ip < s" "jp \<le> s" "s < length ts" "\<not> v ! (ts ! s) < vp" for v vp ts ip jp s
    using that
  proof (induction v vp ts ip jp rule: partition_loop.induct)
    case (1 v vp ts ip jp)
    let ?i = "scan_up v vp ts ip" and ?j = "scan_down v vp ts jp"
    have i: "?i \<le> s" using up_le[OF 1(2) 1(4) 1(5)] .
    have j: "?j \<le> s" using down_le[of v vp ts jp] 1(3) by simp
    show ?case
    proof (cases "?j \<le> ?i")
      case True
      with i show ?thesis by (subst partition_loop.simps) (simp add: Let_def)
    next
      case False
      then have lt: "?i < s" using j by simp
      have stop: "\<not> v ! (ts ! ?i) < vp" using up_stop[of v vp ts ip] lt 1(4) by simp
      have sent: "\<not> v ! (swap_at ts ?i ?j ! s) < vp"
        using stop 1(5) lt j 1(4) by (auto simp: swap_at_def nth_list_update)
      have l: "s < length (swap_at ts ?i ?j)" using 1(4) by (simp add: swap_at_def)
      from 1(1)[OF refl refl False lt j l sent] False show ?thesis
        by (subst partition_loop.simps) (simp add: Let_def)
    qed
  qed
  have len: "length (fst (quicksort_partition v ts)) = length ts" for v ts
    by (simp add: quicksort_partition_def Let_def case_prod_unfold swap_at_def len_loop
        median_of_three_def)
  have bound: "snd (quicksort_partition v ts) < length ts" if "2 < length ts" for v ts
  proof -
    let ?pr = "length ts - 1"
    let ?pm = "?pr div 2"
    let ?ts1 = "median_of_three v ts ?pm ?pr"
    let ?vp = "v ! (?ts1 ! ?pm)"
    let ?ts2 = "swap_at ?ts1 ?pm (?pr - 1)"
    have l1: "length ?ts1 = length ts" by (simp add: median_of_three_def Let_def swap_at_def)
    have s: "?ts2 ! (?pr - 1) = ?ts1 ! ?pm" using that l1 by (simp add: swap_at_def)
    have a: "0 < ?pr - 1" "?pr - 1 < length ?ts2" using that l1 by (simp_all add: swap_at_def)
    have b: "\<not> v ! (?ts2 ! (?pr - 1)) < ?vp" unfolding s by simp
    have "snd (partition_loop v ?vp ?ts2 0 (?pr - 1)) \<le> ?pr - 1"
      using a(1) order_refl a(2) b by (rule loop_le)
    also have "?pr - 1 < length ts" using that by simp
    finally have "snd (partition_loop v ?vp ?ts2 0 (?pr - 1)) < length ts" .
    then show ?thesis by (simp add: quicksort_partition_def Let_def case_prod_unfold)
  qed
  show ?thesis
  proof (relation "measure (\<lambda>(v, ts). length ts)")
    show "wf (measure (\<lambda>(v, ts). length ts))" by simp
  next
    fix v ts x xa y
    assume a: "16 < int (length ts) - 1" "x = quicksort_partition v ts" "(xa, y) = x"
    then have "y = snd (quicksort_partition v ts)" "xa = fst (quicksort_partition v ts)"
      by (metis fst_conv snd_conv)+
    with bound[of ts v] len[of v ts] a(1)
    show "((v, take y xa), v, ts) \<in> measure (\<lambda>(v, ts). length ts)" by simp
  next
    fix v ts x xa y
    assume a: "16 < int (length ts) - 1" "x = quicksort_partition v ts" "(xa, y) = x"
    then have "xa = fst (quicksort_partition v ts)" by (metis fst_conv)
    with len[of v ts] a(1)
    show "((v, drop (y + 1) xa), v, ts) \<in> measure (\<lambda>(v, ts). length ts)" by simp
  qed
qed

declare aquicksort.simps [simp del]

text \<open>\<^verbatim>\<open>argsort(a)\<close> with the default kind.\<close>

definition numpy_argsort :: "real list \<Rightarrow> nat list" where
  "numpy_argsort vals = aquicksort vals [0..<length vals]"

subsection \<open>Expelling paths\<close>

datatype expel_mode =
    Expel_no_flow
  | Expel_inverse_flow
  | Expel_random
  | Expel_all
  | Expel_other int

text \<open>
  An entry of the solver's tensor \<^verbatim>\<open>xps[tcid, j, e]\<close>: an integer literal, or a variable
  with its value \<^verbatim>\<open>x.x\<close>. The tensor is a function of the traffic class identifier and
  of the position among the visible paths, \<open>None\<close> out of range (\<open>IndexError\<close>).
\<close>

datatype flowvar = Const int | Var real

type_synonym xps = "int \<Rightarrow> nat \<Rightarrow> flowvar list option"

text \<open>\<^verbatim>\<open>any([x.x != 0 for x in row if not isinstance(x, int)])\<close>.\<close>

definition any_flow :: "flowvar list \<Rightarrow> bool" where
  "any_flow row = list_ex (\<lambda>x. case x of Var v \<Rightarrow> v \<noteq> 0 | Const c \<Rightarrow> False) row"

text \<open>
  \<^verbatim>\<open>mean([x.x for x in row if not isinstance(x, int)])\<close>; the mean of no value is
  \<open>nan\<close>, here \<open>None\<close>, and every comparison with it is false.
\<close>

definition flow_values :: "flowvar list \<Rightarrow> real list" where
  "flow_values row = concat (map (\<lambda>x. case x of Var v \<Rightarrow> [v] | Const c \<Rightarrow> []) row)"

definition mean_flow :: "flowvar list \<Rightarrow> real option" where
  "mean_flow row =
     (let vs = flow_values row
      in if vs = [] then None else Some (sum_list vs / real (length vs)))"

text \<open>
  The loop of mode \<open>no_flow\<close> over \<^verbatim>\<open>enumerate(existing_mask)\<close>, from the running
  counter \<open>ii\<close> of the visible entries met so far; \<open>row\<close> is \<^verbatim>\<open>xps[tcid, ., :]\<close>.
\<close>

fun expel_no_flow :: "(nat \<Rightarrow> flowvar list option) \<Rightarrow> nat \<Rightarrow> ndarray \<Rightarrow> error + ndarray" where
  "expel_no_flow row ii [] = Inr []"
| "expel_no_flow row ii (maskval # rest) =
     (if maskval = 0 then
        (case row ii of
           None \<Rightarrow> Inl IndexError
         | Some xs \<Rightarrow>
            (case expel_no_flow row (ii + 1) rest of
               Inl e \<Rightarrow> Inl e
             | Inr rest' \<Rightarrow> Inr ((if \<not> any_flow xs then 1 else maskval) # rest')))
      else
        (case expel_no_flow row ii rest of
           Inl e \<Rightarrow> Inl e
         | Inr rest' \<Rightarrow> Inr (maskval # rest')))"

text \<open>The loop of mode \<open>inverse_flow\<close>; one call of \<^verbatim>\<open>random.random()\<close> per visible entry.\<close>

fun expel_inverse_flow ::
  "(nat \<Rightarrow> flowvar list option) \<Rightarrow> nat \<Rightarrow> ndarray \<Rightarrow> draws \<Rightarrow> error + (ndarray \<times> draws)" where
  "expel_inverse_flow row ii [] g = Inr ([], g)"
| "expel_inverse_flow row ii (maskval # rest) g =
     (if maskval = 0 then
        (case row ii of
           None \<Rightarrow> Inl IndexError
         | Some xs \<Rightarrow>
            (let flow = mean_flow xs;
                 (u, g') = next_uniform g;
                 kick = (case flow of None \<Rightarrow> False | Some f \<Rightarrow> u \<le> 1 - f)
             in case expel_inverse_flow row (ii + 1) rest g' of
                  Inl e \<Rightarrow> Inl e
                | Inr (rest', g'') \<Rightarrow> Inr ((if kick then 1 else maskval) # rest', g'')))
      else
        (case expel_inverse_flow row ii rest g of
           Inl e \<Rightarrow> Inl e
         | Inr (rest', g') \<Rightarrow> Inr (maskval # rest', g')))"

text \<open>The loop of mode \<open>random\<close>: a coin per visible entry.\<close>

fun expel_random :: "ndarray \<Rightarrow> draws \<Rightarrow> ndarray \<times> draws" where
  "expel_random [] g = ([], g)"
| "expel_random (maskval # rest) g =
     (if maskval = 0 then
        (let (u, g') = next_uniform g;
             (rest', g'') = expel_random rest g'
         in ((if u < 0.5 then 1 else maskval) # rest', g''))
      else
        (let (rest', g') = expel_random rest g in (maskval # rest', g')))"

text \<open>
  \<^verbatim>\<open>_expel(tcid, existing_mask, xps, mode)\<close>. The array is modified in place and returned;
  the model returns its new contents.
\<close>

definition expel :: "int \<Rightarrow> ndarray \<Rightarrow> xps \<Rightarrow> expel_mode \<Rightarrow> draws \<Rightarrow> error + (ndarray \<times> draws)" where
  "expel tcid existing_mask xps mode g =
     (case mode of
        Expel_no_flow \<Rightarrow>
          (case expel_no_flow (xps tcid) 0 existing_mask of
             Inl e \<Rightarrow> Inl e
           | Inr m \<Rightarrow> Inr (m, g))
      | Expel_inverse_flow \<Rightarrow> expel_inverse_flow (xps tcid) 0 existing_mask g
      | Expel_random \<Rightarrow> Inr (expel_random existing_mask g)
      | Expel_all \<Rightarrow> Inr (replicate (length existing_mask) 1, g)
      | Expel_other v \<Rightarrow> Inl ValueError)"

subsection \<open>Explored combinations\<close>

text \<open>
  The list \<open>explored\<close> holds references to arrays. A reference either is the array
  that is being modified (\<open>This\<close>: the same object as \<open>mask\<close>, so that it shows every
  write to \<open>mask\<close>) or another array, given by its contents.
\<close>

datatype entry = This | Arr ndarray

fun deref :: "ndarray \<Rightarrow> entry \<Rightarrow> ndarray" where
  "deref msk This = msk"
| "deref msk (Arr x) = x"

text \<open>
  \<^verbatim>\<open>_in(mask, explored)\<close>: some \<open>x\<close> in \<open>explored\<close> has
  \<^verbatim>\<open>(bitwise_xor(mask, x) == 0).all()\<close>.
\<close>

fun in_explored :: "ndarray \<Rightarrow> entry list \<Rightarrow> error + bool" where
  "in_explored msk [] = Inr False"
| "in_explored msk (x # explored) =
     (case bitwise_xor msk (deref msk x) of
        Inl e \<Rightarrow> Inl e
      | Inr d \<Rightarrow> if list_all (\<lambda>v. v = 0) d then Inr True else in_explored msk explored)"

subsection \<open>Replacing paths\<close>

datatype replace_mode =
    Replace_next_sorted
  | Replace_random
  | Replace_pathtree
  | Replace_pathscore
  | Replace_other int

text \<open>\<^verbatim>\<open>itertools.combinations(xs, k)\<close>, in its lexicographic order of positions.\<close>

fun combinations :: "'a list \<Rightarrow> nat \<Rightarrow> 'a list list" where
  "combinations xs 0 = [[]]"
| "combinations [] (Suc k) = []"
| "combinations (x # xs) (Suc k) = map ((#) x) (combinations xs k) @ combinations xs (Suc k)"

text \<open>
  The loop of mode \<open>next_sorted\<close> over the combinations: the result is \<^verbatim>\<open>found_new\<close>
  and the array.
\<close>

fun next_sorted_loop :: "entry list \<Rightarrow> ndarray \<Rightarrow> nat list list \<Rightarrow> error + (bool \<times> ndarray)" where
  "next_sorted_loop explored msk [] = Inr (False, msk)"
| "next_sorted_loop explored msk (comb # combs) =
     (let msk' = assign_at msk comb 0
      in case in_explored msk' explored of
           Inl e \<Rightarrow> Inl e
         | Inr found \<Rightarrow>
            if \<not> found then Inr (True, msk')
            else next_sorted_loop explored (assign_at msk' comb 1) combs)"

text \<open>
  The loop of mode \<open>random\<close>:
  \<^verbatim>\<open>while not _in(mask, explored) and num_tries < max_tries\<close>, with \<^verbatim>\<open>max_tries = 100\<close>.
\<close>

function replace_random_loop ::
  "entry list \<Rightarrow> ndarray \<Rightarrow> nat list \<Rightarrow> nat \<Rightarrow> draws \<Rightarrow> error + (ndarray \<times> draws)" where
  "replace_random_loop explored msk comb num_tries g =
     (case in_explored msk explored of
        Inl e \<Rightarrow> Inl e
      | Inr found \<Rightarrow>
         if \<not> found \<and> num_tries < 100 then
           (let msk1 = assign_at msk comb 1;
                (comb', g') = next_choice g;
                msk0 = assign_at msk1 comb' 0
            in replace_random_loop explored msk0 comb' (num_tries + 1) g')
         else Inr (msk, g))"
  by pat_completeness auto
termination
  by (relation "measure (\<lambda>(explored, msk, comb, num_tries, g). 100 - num_tries)") auto

text \<open>
  The loop of mode \<open>pathtree\<close>:
  \<^verbatim>\<open>while _in(mask, explored) and num_tries < max_tries\<close>.
\<close>

function replace_pathtree_loop ::
  "entry list \<Rightarrow> ndarray \<Rightarrow> nat list \<Rightarrow> nat \<Rightarrow> draws \<Rightarrow> error + (ndarray \<times> draws)" where
  "replace_pathtree_loop explored msk comb num_tries g =
     (case in_explored msk explored of
        Inl e \<Rightarrow> Inl e
      | Inr found \<Rightarrow>
         if found \<and> num_tries < 100 then
           (let msk1 = assign_at msk comb 1;
                (comb', g') = next_tree_comb g;
                msk0 = assign_at msk1 comb' 0
            in replace_pathtree_loop explored msk0 comb' (num_tries + 1) g')
         else Inr (msk, g))"
  by pat_completeness auto
termination
  by (relation "measure (\<lambda>(explored, msk, comb, num_tries, g). 100 - num_tries)") auto

text \<open>
  \<^verbatim>\<open>_replace(explored, mask, num_paths, mode, tree)\<close>. The array \<open>mask\<close> is modified in
  place; the model returns its new contents.
\<close>

definition replace ::
  "entry list \<Rightarrow> ndarray \<Rightarrow> int \<Rightarrow> replace_mode \<Rightarrow> draws \<Rightarrow> error + (ndarray \<times> draws)" where
  "replace explored msk num_paths mode g =
     (let replace_len = max 0 (num_paths - int (count_zero msk)) in
      if replace_len \<le> 0 then Inr (msk, g)
      else
        (let unused = filter (\<lambda>i. msk ! i = 1) [0..<length msk] in
         if int (length unused) < replace_len then Inr (replicate (length msk) 0, g)
         else
           (case mode of
              Replace_next_sorted \<Rightarrow>
                (case next_sorted_loop explored msk (combinations unused (nat replace_len)) of
                   Inl e \<Rightarrow> Inl e
                 | Inr (found_new, msk') \<Rightarrow>
                    if \<not> found_new then
                      (let (comb, g') = next_choice g in Inr (assign_at msk' comb 0, g'))
                    else Inr (msk', g))
            | Replace_random \<Rightarrow>
                (let (comb, g') = next_choice g
                 in replace_random_loop explored (assign_at msk comb 0) comb 0 g')
            | Replace_pathtree \<Rightarrow>
                (let (comb, g') = next_tree_comb g
                 in replace_pathtree_loop explored (assign_at msk comb 0) comb 0 g')
            | Replace_pathscore \<Rightarrow> Inl ValueError
            | Replace_other v \<Rightarrow> Inl ValueError)))"

subsection \<open>Solving\<close>

text \<open>
  What a selector reads from a solved optimization: whether it is solved, its objective
  and its flow variables. \<^verbatim>\<open>compose_apps\<close> followed by \<^verbatim>\<open>opt.solve()\<close> is a parameter
  \<open>solver\<close>: the answer to the \<open>n\<close>-th such call of a run, for the masks of the PPTC at
  that moment.
\<close>

record opt_result =
  is_solved :: bool
  solved_objective :: real
  get_xps :: xps

type_synonym solver = "nat \<Rightarrow> pptc \<Rightarrow> opt_result"

subsection \<open>Selection by resource score\<close>

text \<open>The scores of the candidate paths of a traffic class, in order.\<close>

fun path_scores ::
  "'r topology \<Rightarrow> ('r \<times> real) list \<Rightarrow> ('r \<rightharpoonup> real) \<Rightarrow> real \<Rightarrow> path list \<Rightarrow> error + real list" where
  "path_scores topo weights nrm d [] = Inr []"
| "path_scores topo weights nrm d (p # ps) =
     (case compute_score p topo weights nrm d of
        Inl e \<Rightarrow> Inl e
      | Inr sc \<Rightarrow>
         (case path_scores topo weights nrm d ps of
            Inl e \<Rightarrow> Inl e
          | Inr scs \<Rightarrow> Inr (sc # scs)))"

text \<open>
  \<^verbatim>\<open>k_resource_paths(pptc, num_paths, resource_weights, topo)\<close>; \<^verbatim>\<open>flipud\<close> reverses the
  order.
\<close>

fun k_resource_paths ::
  "(real list \<Rightarrow> nat list) \<Rightarrow> pptc \<Rightarrow> int \<Rightarrow> ('r \<times> real) list \<Rightarrow> 'r topology
     \<Rightarrow> error + (pptc \<times> (traffic_class \<times> nat list) list)" where
  "k_resource_paths argsort [] num_paths resource_weights topo = Inr ([], [])"
| "k_resource_paths argsort ((tc, ps, m) # rest) num_paths resource_weights topo =
     (let total_r = map_of (map (\<lambda>(r, w). (r, total_resource topo r)) resource_weights);
          d = diameter topo
      in case path_scores topo resource_weights total_r d ps of
           Inl e \<Rightarrow> Inl e
         | Inr scores \<Rightarrow>
            (let ind = rev (argsort scores);
                 msk = ones (length ps);
                 msk = assign_at msk (slice_to ind (min num_paths (int (length msk)))) 0
             in case k_resource_paths argsort rest num_paths resource_weights topo of
                  Inl e \<Rightarrow> Inl e
                | Inr (rest', inds) \<Rightarrow> Inr ((tc, ps, msk) # rest', (tc, ind) # inds)))"

subsection \<open>Iterative selection\<close>

text \<open>
  What \<^verbatim>\<open>select_iterative\<close> reads from an application: its volume and the resources of its
  \<^verbatim>\<open>resource_cost\<close>.
\<close>

record 'r app =
  app_volume :: real
  resource_cost :: "'r list"

text \<open>
  \<^verbatim>\<open>res_weights[r] += app_weights[a]\<close> on a \<^verbatim>\<open>defaultdict(int)\<close>, and the weights of the
  resources: every application adds its share of the total volume to each of its
  resources. The total volume is not zero (numpy would give \<open>nan\<close> or \<open>inf\<close>).
\<close>

definition add_weight :: "('r \<times> real) list \<Rightarrow> 'r \<Rightarrow> real \<Rightarrow> ('r \<times> real) list" where
  "add_weight d r w =
     (if r \<in> fst ` set d then map (\<lambda>(r', v). if r' = r then (r', v + w) else (r', v)) d
      else d @ [(r, 0 + w)])"

definition res_weights :: "'r app list \<Rightarrow> ('r \<times> real) list" where
  "res_weights apps =
     (let volumes = map app_volume apps;
          app_weights = map (\<lambda>v. v / sum_list volumes) volumes
      in fold (\<lambda>(a, app) acc. fold (\<lambda>r acc'. add_weight acc' r (app_weights ! a)) (resource_cost app) acc)
           (zip [0..<length apps] apps) [])"

text \<open>
  The loop over the traffic classes in the body of the main loop:
  \<^verbatim>\<open>mask[ind[:min(k, mask.size)]] = 0\<close> with \<^verbatim>\<open>ind = indices[tc]\<close>.
\<close>

fun unmask_first :: "(traffic_class \<times> nat list) list \<Rightarrow> int \<Rightarrow> pptc \<Rightarrow> error + pptc" where
  "unmask_first indices k [] = Inr []"
| "unmask_first indices k ((tc, ps, m) # rest) =
     (case map_of indices tc of
        None \<Rightarrow> Inl KeyError
      | Some ind \<Rightarrow>
         (case unmask_first indices k rest of
            Inl e \<Rightarrow> Inl e
          | Inr rest' \<Rightarrow>
             Inr ((tc, ps, assign_at m (slice_to ind (min k (int (length m)))) 0) # rest')))"

text \<open>
  The main loop, \<^verbatim>\<open>while i < max_iter and diff > epsilon and k < mp\<close>. The state is
  \<open>i\<close>, \<open>diff\<close>, \<open>old_val\<close>, \<open>k\<close>, the PPTC and \<open>opt\<close>, which is \<open>None\<close> as long as
  the variable has not been assigned. The C integer \<open>i\<close> does not overflow: \<open>k\<close> doubles
  in every round and stays below the C integer \<open>mp\<close>. The variable \<open>diff\<close> is a C
  \<^verbatim>\<open>float\<close>: its initial value \<open>1 << 10\<close> is exact, and the rounding to single precision
  of the values assigned in the loop is not modelled.
\<close>

function iterative_loop ::
  "solver \<Rightarrow> (traffic_class \<times> nat list) list \<Rightarrow> int \<Rightarrow> real \<Rightarrow> int
     \<Rightarrow> int \<Rightarrow> real \<Rightarrow> real \<Rightarrow> int \<Rightarrow> pptc \<Rightarrow> opt_result option
     \<Rightarrow> error + (pptc \<times> opt_result option)" where
  "iterative_loop solver indices max_iter epsilon mp i diff old_val k all_pptc opt =
     (if i < max_iter \<and> diff > epsilon \<and> k < mp then
        (case unmask_first indices k all_pptc of
           Inl e \<Rightarrow> Inl e
         | Inr pptc' \<Rightarrow>
            (let opt' = solver (nat i) pptc';
                 diff' = (if is_solved opt' then solved_objective opt' - old_val else diff);
                 old_val' = (if is_solved opt' then solved_objective opt' else old_val)
             in iterative_loop solver indices max_iter epsilon mp (i + 1) diff' old_val' (k * 2)
                  pptc' (Some opt')))
      else Inr (all_pptc, opt))"
  by pat_completeness auto
termination
  by (relation "measure (\<lambda>(solver, indices, max_iter, epsilon, mp, i, diff, old_val, k, all_pptc, opt).
        nat (max_iter - i))") auto

text \<open>
  \<^verbatim>\<open>select_iterative(apps, topo, network_config, max_iter, epsilon, fairness, epoch_mode,
  sort_mode)\<close>. \<open>all_pptc\<close> is the merged PPTC of the applications. The result is the last
  optimization and the PPTC; the measured times are not modelled.
\<close>

definition select_iterative ::
  "(real list \<Rightarrow> nat list) \<Rightarrow> 'r app list \<Rightarrow> 'r topology \<Rightarrow> pptc \<Rightarrow> solver \<Rightarrow> int \<Rightarrow> real \<Rightarrow> string
     \<Rightarrow> error + (opt_result \<times> pptc)" where
  "select_iterative argsort apps topo all_pptc solver max_iter epsilon sort_mode =
     (case (if sort_mode = ''len'' then Inr (k_shortest_paths argsort all_pptc 5)
            else if sort_mode = ''resource''
            then k_resource_paths argsort all_pptc 5 (res_weights apps) topo
            else Inl InvalidConfigException) of
        Inl e \<Rightarrow> Inl e
      | Inr (pptc1, indices) \<Rightarrow>
         (case iterative_loop solver indices max_iter epsilon (int (max_paths pptc1))
                 0 1024 0 5 pptc1 None of
            Inl e \<Rightarrow> Inl e
          | Inr (pptc2, opt) \<Rightarrow>
             (case opt of
                None \<Rightarrow> Inl UnboundLocalError
              | Some opt' \<Rightarrow>
                 if \<not> is_solved opt' then Inl SOLException else Inr (opt', pptc2))))"

subsection \<open>Simulated annealing\<close>


text \<open>
  Arrays are objects: \<^verbatim>\<open>_expel\<close> and \<^verbatim>\<open>_replace\<close> write into the array they are given, and
  the lists \<^verbatim>\<open>explored[tc]\<close> hold references. The model keeps the arrays in a store, a
  list of contents indexed by address; a new array gets the next address.

  The dictionaries \<^verbatim>\<open>pptc_len\<close>, \<^verbatim>\<open>explored\<close> and \<^verbatim>\<open>bestpaths\<close> have the traffic classes of
  the PPTC as keys. The model keeps one record per traffic class, in the iteration order:
  the candidate paths and the current mask of the PPTC, \<^verbatim>\<open>pptc_len[tc]\<close>, the addresses
  in \<^verbatim>\<open>explored[tc]\<close> (\<open>explored_refs\<close>), and the address \<^verbatim>\<open>bestpaths[tc]\<close>, \<open>None\<close> until
  it is assigned.
\<close>

type_synonym store = "ndarray list"

record tc_state =
  sa_tc :: traffic_class
  all_paths :: "path list"
  cur_mask :: ndarray
  pptc_len :: int
  explored_refs :: "nat list"
  bestpaths :: "nat option"




text \<open>The tensor passed as \<^verbatim>\<open>None\<close> in the feasibility phase; mode \<open>all\<close> does not read it.\<close>

definition no_xps :: xps where
  "no_xps = (\<lambda>tcid j. None)"

text \<open>
  One round of the loop over the traffic classes in the feasibility phase:
  \<^verbatim>\<open>newmask = _expel(tc.ID, explored[tc][-1], None, ExpelMode.all)\<close>,
  \<^verbatim>\<open>_replace(explored[tc], newmask, num_paths, replace_mode)\<close>,
  \<^verbatim>\<open>explored[tc].append(newmask)\<close>. The array \<^verbatim>\<open>newmask\<close> is the last array of
  \<^verbatim>\<open>explored[tc]\<close> itself, modified in place, and its address is appended again.
\<close>

definition resample_tc ::
  "int \<Rightarrow> replace_mode \<Rightarrow> store \<Rightarrow> tc_state \<Rightarrow> draws \<Rightarrow> error + (store \<times> tc_state \<times> draws)" where
  "resample_tc num_paths rmode h s g =
     (case explored_refs s of
        [] \<Rightarrow> Inl IndexError
      | _ # _ \<Rightarrow>
         (let r = last (explored_refs s) in
          case expel (ID (sa_tc s)) (h ! r) no_xps Expel_all g of
            Inl e \<Rightarrow> Inl e
          | Inr (m1, g1) \<Rightarrow>
             (case replace (map (\<lambda>a. if a = r then This else Arr (h ! a)) (explored_refs s))
                     m1 num_paths rmode g1 of
                Inl e \<Rightarrow> Inl e
              | Inr (newmask, g2) \<Rightarrow>
                 Inr (h[r := newmask], s\<lparr>explored_refs := explored_refs s @ [r]\<rparr>, g2))))"









subsection \<open>Example inputs\<close>

text \<open>A topology of two nodes where every node and link has one unit of two resources.\<close>

definition unit_topology :: "string topology" where
  "unit_topology =
     \<lparr>name = ''line'', num_nodes = 2,
      get_resources = (\<lambda>n. [''cpu'' \<mapsto> 1, ''bw'' \<mapsto> 1]),
      total_resource = (\<lambda>r. 1), diameter = 1\<rparr>"

definition triangle_topology :: "string topology" where
  "triangle_topology =
     \<lparr>name = ''triangle'', num_nodes = 3, get_resources = (\<lambda>n. Map.empty),
      total_resource = (\<lambda>r. 0), diameter = 1\<rparr>"

text \<open>A clustering library that fits nothing.\<close>

definition no_centers :: "nat \<Rightarrow> real list list \<Rightarrow> error + real list list" where
  "no_centers n samples = Inr []"

definition no_labels :: "nat \<Rightarrow> real list list \<Rightarrow> error + nat list" where
  "no_labels n samples = Inr []"

definition unit_weights :: "(string \<times> real) list" where
  "unit_weights = [(''cpu'', 1), (''bw'', 1)]"

definition unit_norm :: "string \<rightharpoonup> real" where
  "unit_norm = [''cpu'' \<mapsto> 1, ''bw'' \<mapsto> 1]"

text \<open>Two traffic classes, with three candidate paths of lengths 4, 5, 6 and two of length 3.\<close>

definition tc1 :: traffic_class where
  "tc1 = \<lparr>ID = 1, priority = 0, src = 0, dst = 3, tc_name = ''tc1'', volFlows = [1]\<rparr>"

definition tc2 :: traffic_class where
  "tc2 = \<lparr>ID = 2, priority = 0, src = 0, dst = 2, tc_name = ''tc2'', volFlows = [1]\<rparr>"

definition line_paths :: "path list" where
  "line_paths = [[0, 1, 2, 3], [0, 1, 4, 2, 3], [0, 5, 6, 7, 8, 3]]"

definition tie_paths :: "path list" where
  "tie_paths = [[0, 1, 3], [0, 2, 3]]"

definition two_tcs :: pptc where
  "two_tcs = [(tc1, line_paths, [0, 0, 0]), (tc2, tie_paths, [1, 1])]"

text \<open>
  A function that meets the contract of \<^verbatim>\<open>argsort\<close> and orders equal values by their
  index.
\<close>

definition argsort_by_index :: "real list \<Rightarrow> nat list" where
  "argsort_by_index vals = sort_key (\<lambda>i. (vals ! i, i)) [0..<length vals]"

text \<open>
  A traffic class with twenty candidate paths of three nodes each, from node 0 to
  node 21 through the nodes 1 to 20.
\<close>

definition fan_paths :: "path list" where
  "fan_paths = map (\<lambda>i. [0, i, 21]) [1..20]"

text \<open>Draws, and the flow variables of a traffic class 7 with three visible paths.\<close>

definition draws_20 :: draws where
  "draws_20 = \<lparr>choices = (\<lambda>i. [2, 0]), uniforms = (\<lambda>i. 0), tree_combs = (\<lambda>i. [])\<rparr>"

definition draws_21 :: draws where
  "draws_21 = \<lparr>choices = (\<lambda>i. [[2], [1]] ! i), uniforms = (\<lambda>i. 0), tree_combs = (\<lambda>i. [])\<rparr>"

definition flows_7 :: xps where
  "flows_7 = (\<lambda>tcid j. if tcid = 7 \<and> j < 3 then Some ([[Var 0, Const 1], [Var 2], []] ! j) else None)"

text \<open>A solver that always finds a solution of objective 1 with flow on every path.\<close>

definition solved_1 :: solver where
  "solved_1 = (\<lambda>n p. \<lparr>is_solved = True, solved_objective = 1, get_xps = (\<lambda>t j. Some [Var 1])\<rparr>)"





section \<open>Properties\<close>

subsection \<open>Acceptance probability\<close>

text \<open>
  C7. \<^verbatim>\<open>_saprob(old, new, t)\<close> is \<open>1\<close> when \<open>old \<le> new\<close> and \<open>0\<close> otherwise, whatever
  the temperature \<open>t\<close>: two calls that differ in the temperature only agree.
\<close>

theorem saprob_hill_climbing:
  "saprob oldo newo t = (if oldo \<le> newo then 1 else 0) \<and> saprob oldo newo t = saprob oldo newo t'"
  by (simp add: saprob_def)

theorem saprob_hill_climbing_witness:
  "saprob (3::int) 5 (0.72::real) = 1 \<and> saprob (5::int) 3 (0.72::real) = 0
     \<and> saprob (3::int) 5 (0.72::real) = saprob (3::int) 5 (0.1::real)"
  using saprob_hill_climbing [of "3::int" 5 "0.72::real" "0.1::real"]
    saprob_hill_climbing [of "5::int" 3 "0.72::real" "0.1::real"]
  by simp

subsection \<open>Resource score\<close>

lemma py_max_Max: "xs \<noteq> [] \<Longrightarrow> py_max xs = Inr (Max (set xs))"
  by (cases xs) (simp_all add: py_max_def Max.set_eq_fold [symmetric])

lemma score_loop_eq:
  assumes "p \<noteq> []" "d \<noteq> 0" "\<forall>(r, w) \<in> set ws. \<exists>n. nrm r = Some n \<and> n \<noteq> 0"
  shows "score_loop t p nrm d s ws =
     Inr (s + (\<Sum>(r, w) \<leftarrow> ws. max_resource t p r / the (nrm r) * w - real (length p) / d))"
  using assms(3)
proof (induction ws arbitrary: s)
  case Nil
  then show ?case by simp
next
  case (Cons rw ws)
  obtain r w where rw: "rw = (r, w)" by (cases rw)
  from Cons.prems rw obtain n where n: "nrm r = Some n" "n \<noteq> 0" by auto
  have ne: "map (\<lambda>n. dict_get (get_resources t n) r 0) (chain (nodes p) (links p)) \<noteq> []"
    using assms(1) by (simp add: chain_def nodes_def)
  have st: "score_step t p nrm d s (r, w)
      = Inr (s + (max_resource t p r / n * w - real (length p) / d))"
    using n assms(2)
    by (simp add: score_step_def py_max_Max[OF ne] py_div_def max_resource_def)
  have "\<forall>(r, w) \<in> set ws. \<exists>n. nrm r = Some n \<and> n \<noteq> 0" using Cons.prems by simp
  from Cons.IH[OF this, of "s + (max_resource t p r / n * w - real (length p) / d)"]
  show ?case unfolding rw by (simp add: st n add.assoc)
qed

lemma sum_list_minus_const:
  "(\<Sum>x \<leftarrow> xs. f x - (c::real)) = (\<Sum>x \<leftarrow> xs. f x) - real (length xs) * c"
  by (induction xs) (simp_all add: algebra_simps)

lemma compute_score_unit:
  "compute_score [1, 2] unit_topology unit_weights unit_norm 1 = Inr (- 2)"
  by (simp add: compute_score_def score_step_def py_max_def py_div_def chain_def nodes_def
      links_def dict_get_def unit_topology_def unit_weights_def unit_norm_def)

lemma spec_score_unit:
  "spec_score [1, 2] unit_topology unit_weights unit_norm 1 = 0"
  by (simp add: spec_score_def max_resource_def chain_def nodes_def links_def dict_get_def
      unit_topology_def unit_weights_def unit_norm_def)

text \<open>
  C3, as stated, fails: with two resources the penalty \<open>len(p)/d\<close> is subtracted twice.
  For a path of two nodes, diameter 1, and two resources of amount, total and weight 1
  the code returns \<open>-2\<close>, the formula of the claim gives \<open>0\<close>.
\<close>

theorem compute_score_once_counterexample:
  "compute_score [1, 2] unit_topology unit_weights unit_norm 1
     \<noteq> Inr (spec_score [1, 2] unit_topology unit_weights unit_norm 1)"
  by (simp add: compute_score_unit spec_score_unit)

text \<open>
  C3, amended. For a path with at least one node, a diameter other than zero and a
  normalisation that is defined and not zero on every weighted resource,
  \<^verbatim>\<open>compute_score\<close> returns the sum over the resources \<open>r\<close> of
  \<open>max_n resources(n).get(r, 0) / N[r] * W[r] - len(p)/d\<close>: the length penalty is
  subtracted once per resource, that is \<open>|R|\<close> times \<open>len(p)/d\<close> in all.
\<close>

theorem compute_score_per_resource:
  assumes "p \<noteq> []" "d \<noteq> 0" "\<forall>(r, w) \<in> set ws. \<exists>n. nrm r = Some n \<and> n \<noteq> 0"
  shows "compute_score p t ws nrm d =
     Inr ((\<Sum>(r, w) \<leftarrow> ws. max_resource t p r / the (nrm r) * w)
          - real (length ws) * (real (length p) / d))"
proof -
  have "(\<Sum>(r, w) \<leftarrow> ws. max_resource t p r / the (nrm r) * w - real (length p) / d)
      = (\<Sum>rw \<leftarrow> ws. (case rw of (r, w) \<Rightarrow> max_resource t p r / the (nrm r) * w)
            - real (length p) / d)"
    by (simp add: case_prod_unfold)
  also have "\<dots> = (\<Sum>(r, w) \<leftarrow> ws. max_resource t p r / the (nrm r) * w)
      - real (length ws) * (real (length p) / d)"
    by (rule sum_list_minus_const)
  finally show ?thesis
    using score_loop_eq[OF assms, of t 0] by (simp add: compute_score_def)
qed

theorem compute_score_per_resource_witness:
  "compute_score [1, 2] unit_topology unit_weights unit_norm 1 = Inr (1 + 1 - 2 * (2 / 1))"
proof -
  have h: "\<forall>(r, w) \<in> set unit_weights. \<exists>n. unit_norm r = Some n \<and> n \<noteq> 0"
    by (simp add: unit_weights_def unit_norm_def)
  show ?thesis
    using compute_score_per_resource [of "[1, 2]" 1 unit_weights unit_norm unit_topology, OF _ _ h]
    by (simp add: max_resource_def chain_def nodes_def links_def dict_get_def
        unit_topology_def unit_weights_def unit_norm_def)
qed

subsection \<open>Selection by the ILP\<close>

text \<open>
  C8. \<^verbatim>\<open>select_ilp\<close> caps the number of chosen paths at \<open>(N - 1)\<^sup>2 * k\<close> on a topology of
  \<open>N\<close> nodes, for \<open>num_paths = k\<close>: the cap is the only call made on the optimization
  before \<^verbatim>\<open>solve\<close>, which is called, and no other cap is imposed. With three nodes and
  \<open>k = 2\<close> the cap is 8.
\<close>

theorem select_ilp_cap:
  "takeWhile (\<lambda>c. c \<noteq> Solve) (fst (select_ilp topo k debug solved))
     = [Cap_num_paths ((int (num_nodes topo) - 1) ^ 2 * k)]
   \<and> Solve \<in> set (fst (select_ilp topo k debug solved))
   \<and> filter (\<lambda>c. case c of Cap_num_paths v \<Rightarrow> True | _ \<Rightarrow> False)
        (fst (select_ilp topo k debug solved))
     = [Cap_num_paths ((int (num_nodes topo) - 1) ^ 2 * k)]
   \<and> (num_nodes topo = 3 \<and> k = 2 \<longrightarrow>
        takeWhile (\<lambda>c. c \<noteq> Solve) (fst (select_ilp topo k debug solved)) = [Cap_num_paths 8])"
  by (simp add: select_ilp_def Let_def)

theorem select_ilp_cap_witness:
  "num_nodes triangle_topology = 3
   \<and> takeWhile (\<lambda>c. c \<noteq> Solve) (fst (select_ilp triangle_topology 2 False True))
       = [Cap_num_paths 8]"
  using select_ilp_cap [of triangle_topology 2 False True]
  by (simp add: triangle_topology_def)

subsection \<open>Clustering\<close>

text \<open>
  C9, as stated, fails: for an unknown method the exception is \<open>ValueError\<close>, not the
  invalid-configuration exception.
\<close>

theorem cluster_tcs_unknown_counterexample:
  "cluster_tcs no_centers no_labels [] 1 ''spectral'' = Inl ValueError
   \<and> cluster_tcs no_centers no_labels [] 1 ''spectral'' \<noteq> Inl InvalidConfigException"
  by (simp add: cluster_tcs_def)

text \<open>
  C9, amended. For every list of traffic classes and every number of clusters,
  \<^verbatim>\<open>cluster_tcs\<close> with a method other than \<open>kmeans\<close> and \<open>agg\<close> raises \<open>ValueError\<close>,
  whatever the clustering library would do; nothing is retried.
\<close>

theorem cluster_tcs_unknown:
  "method \<noteq> ''kmeans'' \<Longrightarrow> method \<noteq> ''agg'' \<Longrightarrow>
     cluster_tcs kmeans agg tcs num_clusters method = Inl ValueError"
  by (simp add: cluster_tcs_def)

theorem cluster_tcs_unknown_witness:
  "''spectral'' \<noteq> ''kmeans'' \<and> ''spectral'' \<noteq> ''agg''
   \<and> cluster_tcs no_centers no_labels [] 1 ''spectral'' = Inl ValueError"
  using cluster_tcs_unknown [of "''spectral''" no_centers no_labels "[]" 1]
  by simp

subsection \<open>Arrays\<close>

lemma length_assign_at [simp]: "length (assign_at a idx v) = length a"
  unfolding assign_at_def by (induction idx arbitrary: a) simp_all

lemma nth_assign_at:
  "i < length a \<Longrightarrow> assign_at a idx v ! i = (if i \<in> set idx then v else a ! i)"
  unfolding assign_at_def
proof (induction idx arbitrary: a)
  case Nil
  then show ?case by simp
next
  case (Cons x idx)
  have "i < length (a[x := v])" using Cons.prems by simp
  from Cons.IH[OF this] show ?case
    by (cases "i = x") (use Cons.prems in \<open>simp_all\<close>)
qed

lemma count_zero_card: "count_zero a = card {i. i < length a \<and> a ! i = 0}"
  by (simp add: count_zero_def length_filter_conv_card)

lemma count_zero_Cons: "count_zero (a # m) = (if a = 0 then Suc (count_zero m) else count_zero m)"
  by (simp add: count_zero_def)

lemma count_zero_assign_ones:
  assumes "distinct idx" "set idx \<subseteq> {0..<n}"
  shows "count_zero (assign_at (ones n) idx 0) = length idx"
proof -
  have "{i. i < length (assign_at (ones n) idx 0) \<and> assign_at (ones n) idx 0 ! i = 0} = set idx"
    using assms(2) by (auto simp: nth_assign_at ones_def split: if_splits)
  then show ?thesis using assms(1) by (simp add: count_zero_card distinct_card)
qed

lemma slice_to_nonneg: "0 \<le> k \<Longrightarrow> slice_to xs (min k (int (length xs))) = take (min (nat k) (length xs)) xs"
proof -
  assume k: "0 \<le> k"
  have "nat (min k (int (length xs))) = min (nat k) (length xs)" using k by linarith
  then show ?thesis using k by (simp add: slice_to_def)
qed

lemma assign_ones_eq_iff:
  assumes t: "length t = n" "\<forall>i<n. t ! i = 0 \<or> t ! i = 1" and c: "set c \<subseteq> {0..<n}"
  shows "assign_at (ones n) c 0 = t \<longleftrightarrow> set c = {i. i < n \<and> t ! i = 0}"
proof
  assume "assign_at (ones n) c 0 = t"
  then have "\<forall>i<n. t ! i = (if i \<in> set c then 0 else 1)"
    by (metis length_replicate nth_assign_at nth_replicate ones_def)
  then show "set c = {i. i < n \<and> t ! i = 0}" using c by (auto split: if_splits)
next
  assume s: "set c = {i. i < n \<and> t ! i = 0}"
  show "assign_at (ones n) c 0 = t"
  proof (rule nth_equalityI)
    show "length (assign_at (ones n) c 0) = length t" using t(1) by (simp add: ones_def)
  next
    fix i assume "i < length (assign_at (ones n) c 0)"
    then have i: "i < n" by (simp add: ones_def)
    then show "assign_at (ones n) c 0 ! i = t ! i"
      using s t(2) by (auto simp: nth_assign_at ones_def)
  qed
qed

lemma upt2: "[0..<2] = [0, 1]" by (simp add: upt_rec)

lemma upt3: "[0..<3] = [0, 1, 2]" by (simp add: upt_rec)

subsection \<open>Random selection\<close>

lemma valid_choice_upt:
  "valid_choice [0..<n] k c \<longleftrightarrow> length c = k \<and> distinct c \<and> set c \<subseteq> {0..<n}"
proof
  assume "valid_choice [0..<n] k c"
  then obtain ps where ps: "length ps = k" "distinct ps" "set ps \<subseteq> {0..<n}"
      "c = map (\<lambda>i. [0..<n] ! i) ps"
    by (auto simp: valid_choice_def)
  have "map (\<lambda>i. [0..<n] ! i) ps = ps"
    using ps(3) by (intro map_idI) auto
  with ps show "length c = k \<and> distinct c \<and> set c \<subseteq> {0..<n}" by simp
next
  assume c: "length c = k \<and> distinct c \<and> set c \<subseteq> {0..<n}"
  then have "map (\<lambda>i. [0..<n] ! i) c = c" by (intro map_idI) auto
  with c show "valid_choice [0..<n] k c"
    unfolding valid_choice_def by (intro exI[of _ c]) simp
qed

lemma draws_before_0 [simp]: "draws_before pptc k 0 = 0"
  by (simp add: draws_before_def)

lemma draws_before_Suc:
  "draws_before ((tc, ps, m) # rest) k (Suc j)
     = (if int (length ps) > k then Suc (draws_before rest k j) else draws_before rest k j)"
  by (simp add: draws_before_def)

lemma choose_rand_spec:
  assumes "0 \<le> k"
  shows "\<exists>pptc' g'. choose_rand pptc k g = Inr (pptc', g') \<and> length pptc' = length pptc \<and>
     (\<forall>j < length pptc. pptc' ! j = rand_entry k (choices g (draws_before pptc k j)) (pptc ! j))"
proof (induction pptc arbitrary: g)
  case Nil
  then show ?case by simp
next
  case (Cons e rest)
  obtain tc ps m where e: "e = (tc, ps, m)" by (cases e)
  show ?case
  proof (cases "int (length ps) > k")
    case True
    define g1 where "g1 = g\<lparr>choices := \<lambda>i. choices g (Suc i)\<rparr>"
    from Cons.IH[of g1] obtain rest' g' where r:
      "choose_rand rest k g1 = Inr (rest', g')" "length rest' = length rest"
      "\<forall>j < length rest. rest' ! j = rand_entry k (choices g1 (draws_before rest k j)) (rest ! j)"
      by blast
    let ?e' = "(tc, ps, assign_at (ones (length ps)) (choices g 0) 0)"
    have c: "choose_rand (e # rest) k g = Inr (?e' # rest', g')"
      using True assms r(1) by (simp add: e next_choice_def g1_def Let_def)
    have "\<forall>j < length (e # rest). (?e' # rest') ! j
        = rand_entry k (choices g (draws_before (e # rest) k j)) ((e # rest) ! j)"
    proof (intro allI impI)
      fix j assume j: "j < length (e # rest)"
      show "(?e' # rest') ! j = rand_entry k (choices g (draws_before (e # rest) k j)) ((e # rest) ! j)"
      proof (cases j)
        case 0
        then show ?thesis using True by (simp add: e rand_entry_def)
      next
        case (Suc j')
        then have "j' < length rest" using j by simp
        with r(3) show ?thesis using Suc True by (simp add: e draws_before_Suc g1_def)
      qed
    qed
    with c r(2) show ?thesis by simp
  next
    case False
    from Cons.IH[of g] obtain rest' g' where r:
      "choose_rand rest k g = Inr (rest', g')" "length rest' = length rest"
      "\<forall>j < length rest. rest' ! j = rand_entry k (choices g (draws_before rest k j)) (rest ! j)"
      by blast
    let ?e' = "(tc, ps, unmask ps)"
    have c: "choose_rand (e # rest) k g = Inr (?e' # rest', g')"
      using False r(1) by (simp add: e Let_def)
    have "\<forall>j < length (e # rest). (?e' # rest') ! j
        = rand_entry k (choices g (draws_before (e # rest) k j)) ((e # rest) ! j)"
    proof (intro allI impI)
      fix j assume j: "j < length (e # rest)"
      show "(?e' # rest') ! j = rand_entry k (choices g (draws_before (e # rest) k j)) ((e # rest) ! j)"
      proof (cases j)
        case 0
        then show ?thesis using False by (simp add: e rand_entry_def)
      next
        case (Suc j')
        then have "j' < length rest" using j by simp
        with r(3) show ?thesis using Suc False by (simp add: e draws_before_Suc)
      qed
    qed
    with c r(2) show ?thesis by simp
  qed
qed

lemma choose_rand_single:
  assumes "0 \<le> k" "int (length ps) > k"
  shows "choose_rand [(tc, ps, m)] k g
     = Inr ([(tc, ps, assign_at (ones (length ps)) (choices g 0) 0)], g\<lparr>choices := \<lambda>i. choices g (Suc i)\<rparr>)"
  using assms by (simp add: next_choice_def Let_def)

lemma card_orders_of_set:
  assumes "finite Z" "card Z = k"
  shows "card {c. length c = k \<and> distinct c \<and> set c = Z} = fact k"
proof -
  have "\<And>c. length c = k \<and> distinct c \<and> set c = Z \<longleftrightarrow> length c = k \<and> distinct c \<and> set c \<subseteq> Z"
  proof -
    fix c :: "'a list"
    show "length c = k \<and> distinct c \<and> set c = Z \<longleftrightarrow> length c = k \<and> distinct c \<and> set c \<subseteq> Z"
    proof
      assume "length c = k \<and> distinct c \<and> set c = Z"
      then show "length c = k \<and> distinct c \<and> set c \<subseteq> Z" by simp
    next
      assume c: "length c = k \<and> distinct c \<and> set c \<subseteq> Z"
      then have cc: "card (set c) = card Z" using assms(2) by (simp add: distinct_card)
      from c have sub: "set c \<subseteq> Z" by blast
      from assms(1) sub cc have "set c = Z" by (rule card_subset_eq)
      with c show "length c = k \<and> distinct c \<and> set c = Z" by blast
    qed
  qed
  then have "{c. length c = k \<and> distinct c \<and> set c = Z} = {c. length c = k \<and> distinct c \<and> set c \<subseteq> Z}"
    by (rule Collect_cong)
  also have "card \<dots> = \<Prod>{card Z - k + 1..card Z}"
    using assms by (intro card_lists_distinct_length_eq) simp_all
  also have "\<dots> = fact k" using assms(2) by (simp add: fact_prod)
  finally show ?thesis .
qed

lemma card_choices_for_mask:
  assumes t: "length t = n" "\<forall>i<n. t ! i = 0 \<or> t ! i = 1" "count_zero t = k"
  shows "card {c. valid_choice [0..<n] k c \<and> assign_at (ones n) c 0 = t} = fact k"
proof -
  let ?Z = "{i. i < n \<and> t ! i = 0}"
  have fin: "finite ?Z" by simp
  have cz: "card ?Z = k" using t(1,3) by (simp add: count_zero_card)
  have "\<And>c. valid_choice [0..<n] k c \<and> assign_at (ones n) c 0 = t
      \<longleftrightarrow> length c = k \<and> distinct c \<and> set c = ?Z"
  proof -
    fix c
    show "valid_choice [0..<n] k c \<and> assign_at (ones n) c 0 = t
      \<longleftrightarrow> length c = k \<and> distinct c \<and> set c = ?Z"
    proof
      assume a: "valid_choice [0..<n] k c \<and> assign_at (ones n) c 0 = t"
      from a have v: "valid_choice [0..<n] k c" by (rule conjunct1)
      from a have e: "assign_at (ones n) c 0 = t" by (rule conjunct2)
      from v have c: "length c = k \<and> distinct c \<and> set c \<subseteq> {0..<n}"
        by (simp only: valid_choice_upt)
      then have sub: "set c \<subseteq> {0..<n}" by (elim conjE)
      have "set c = ?Z" by (rule assign_ones_eq_iff[OF t(1,2) sub, THEN iffD1, OF e])
      with c show "length c = k \<and> distinct c \<and> set c = ?Z" by (elim conjE) (intro conjI)
    next
      assume a: "length c = k \<and> distinct c \<and> set c = ?Z"
      then have sz: "set c = ?Z" by (elim conjE)
      have sub: "set c \<subseteq> {0..<n}" unfolding sz by (rule subsetI) simp
      have e: "assign_at (ones n) c 0 = t"
        by (rule assign_ones_eq_iff[OF t(1,2) sub, THEN iffD2, OF sz])
      from a sub have "length c = k \<and> distinct c \<and> set c \<subseteq> {0..<n}"
        by (elim conjE) (intro conjI)
      then have "valid_choice [0..<n] k c" by (simp only: valid_choice_upt)
      with e show "valid_choice [0..<n] k c \<and> assign_at (ones n) c 0 = t" by (intro conjI)
    qed
  qed
  then have "{c. valid_choice [0..<n] k c \<and> assign_at (ones n) c 0 = t}
      = {c. length c = k \<and> distinct c \<and> set c = ?Z}"
    by (rule Collect_cong)
  then show ?thesis using card_orders_of_set[OF fin cz] by (simp only:)
qed

text \<open>
  C5. Let \<open>0 \<le> k\<close> and let every call of \<^verbatim>\<open>choice(arange(n), k, replace=False)\<close> return
  \<open>k\<close> distinct indices below \<open>n\<close>. Then \<^verbatim>\<open>choose_rand(pptc, k)\<close> returns, and for
  every traffic class with \<open>n\<close> candidate paths: if \<open>n > k\<close> the mask has length \<open>n\<close>,
  exactly \<open>k\<close> entries equal to 0, at the drawn indices, and 1 everywhere else; if
  \<open>n \<le> k\<close> every entry is 0. The selection is uniform over the combinations: every mask
  with exactly \<open>k\<close> zeros is the result of exactly \<open>k!\<close> of the equally likely outcomes
  of \<^verbatim>\<open>choice\<close>.
\<close>

theorem choose_rand_masks:
  assumes "0 \<le> k"
    and "\<forall>j < length pptc. int (length (fst (snd (pptc ! j)))) > k \<longrightarrow>
           valid_choice [0..<length (fst (snd (pptc ! j)))] (nat k) (choices g (draws_before pptc k j))"
  shows "(\<exists>pptc' g'. choose_rand pptc k g = Inr (pptc', g') \<and> length pptc' = length pptc \<and>
      (\<forall>j < length pptc. \<exists>tc ps m m'.
          pptc ! j = (tc, ps, m) \<and> pptc' ! j = (tc, ps, m') \<and> length m' = length ps \<and>
          (int (length ps) > k \<longrightarrow>
             count_zero m' = nat k \<and>
             (\<forall>i < length ps. m' ! i = (if i \<in> set (choices g (draws_before pptc k j)) then 0 else 1))) \<and>
          (int (length ps) \<le> k \<longrightarrow> (\<forall>i < length ps. m' ! i = 0))))
    \<and> (\<forall>t. int (length ps_a) > k \<and> length t = length ps_a \<and> (\<forall>i < length ps_a. t ! i = 0 \<or> t ! i = 1)
            \<and> count_zero t = nat k \<longrightarrow>
          card {c. valid_choice [0..<length ps_a] (nat k) c \<and>
                   map_sum id fst (choose_rand [(tc_a, ps_a, m_a)] k (g_a\<lparr>choices := \<lambda>i. c\<rparr>))
                     = Inr [(tc_a, ps_a, t)]} = fact (nat k))"
proof (rule conjI)
  from choose_rand_spec[OF assms(1), of pptc g] obtain pptc' g' where r:
    "choose_rand pptc k g = Inr (pptc', g')" "length pptc' = length pptc"
    "\<forall>j < length pptc. pptc' ! j = rand_entry k (choices g (draws_before pptc k j)) (pptc ! j)"
    by blast
  have "\<forall>j < length pptc. \<exists>tc ps m m'.
          pptc ! j = (tc, ps, m) \<and> pptc' ! j = (tc, ps, m') \<and> length m' = length ps \<and>
          (int (length ps) > k \<longrightarrow>
             count_zero m' = nat k \<and>
             (\<forall>i < length ps. m' ! i = (if i \<in> set (choices g (draws_before pptc k j)) then 0 else 1))) \<and>
          (int (length ps) \<le> k \<longrightarrow> (\<forall>i < length ps. m' ! i = 0))"
  proof (intro allI impI)
    fix j assume j: "j < length pptc"
    obtain tc ps m where e: "pptc ! j = (tc, ps, m)" by (cases "pptc ! j")
    let ?c = "choices g (draws_before pptc k j)"
    let ?m' = "if int (length ps) > k then assign_at (ones (length ps)) ?c 0 else unmask ps"
    from r(3) j e have e': "pptc' ! j = (tc, ps, ?m')" by (simp add: rand_entry_def)
    have len: "length ?m' = length ps" by (simp add: ones_def unmask_def)
    have big: "int (length ps) > k \<longrightarrow>
             count_zero ?m' = nat k \<and> (\<forall>i < length ps. ?m' ! i = (if i \<in> set ?c then 0 else 1))"
    proof
      assume gt: "int (length ps) > k"
      from assms(2) j have "int (length (fst (snd (pptc ! j)))) > k \<longrightarrow>
           valid_choice [0..<length (fst (snd (pptc ! j)))] (nat k) ?c" by blast
      then have "valid_choice [0..<length ps] (nat k) ?c" using gt unfolding e by simp
      then have c: "length ?c = nat k" "distinct ?c" "set ?c \<subseteq> {0..<length ps}"
        by (simp_all add: valid_choice_upt)
      have "count_zero (assign_at (ones (length ps)) ?c 0) = nat k"
        using count_zero_assign_ones[OF c(2) c(3)] c(1) by simp
      moreover have "\<forall>i < length ps. assign_at (ones (length ps)) ?c 0 ! i = (if i \<in> set ?c then 0 else 1)"
        by (simp add: nth_assign_at ones_def)
      ultimately show "count_zero ?m' = nat k \<and> (\<forall>i < length ps. ?m' ! i = (if i \<in> set ?c then 0 else 1))"
        using gt by simp
    qed
    have small: "int (length ps) \<le> k \<longrightarrow> (\<forall>i < length ps. ?m' ! i = 0)"
      by (simp add: unmask_def)
    from e e' len big small show "\<exists>tc ps m m'.
          pptc ! j = (tc, ps, m) \<and> pptc' ! j = (tc, ps, m') \<and> length m' = length ps \<and>
          (int (length ps) > k \<longrightarrow>
             count_zero m' = nat k \<and>
             (\<forall>i < length ps. m' ! i = (if i \<in> set (choices g (draws_before pptc k j)) then 0 else 1))) \<and>
          (int (length ps) \<le> k \<longrightarrow> (\<forall>i < length ps. m' ! i = 0))"
      by blast
  qed
  with r(1,2) show "\<exists>pptc' g'. choose_rand pptc k g = Inr (pptc', g') \<and> length pptc' = length pptc \<and>
      (\<forall>j < length pptc. \<exists>tc ps m m'.
          pptc ! j = (tc, ps, m) \<and> pptc' ! j = (tc, ps, m') \<and> length m' = length ps \<and>
          (int (length ps) > k \<longrightarrow>
             count_zero m' = nat k \<and>
             (\<forall>i < length ps. m' ! i = (if i \<in> set (choices g (draws_before pptc k j)) then 0 else 1))) \<and>
          (int (length ps) \<le> k \<longrightarrow> (\<forall>i < length ps. m' ! i = 0)))"
    by blast
next
  show "\<forall>t. int (length ps_a) > k \<and> length t = length ps_a \<and> (\<forall>i < length ps_a. t ! i = 0 \<or> t ! i = 1)
            \<and> count_zero t = nat k \<longrightarrow>
          card {c. valid_choice [0..<length ps_a] (nat k) c \<and>
                   map_sum id fst (choose_rand [(tc_a, ps_a, m_a)] k (g_a\<lparr>choices := \<lambda>i. c\<rparr>))
                     = Inr [(tc_a, ps_a, t)]} = fact (nat k)"
  proof (intro allI impI)
    fix t
    assume a: "int (length ps_a) > k \<and> length t = length ps_a \<and> (\<forall>i < length ps_a. t ! i = 0 \<or> t ! i = 1)
            \<and> count_zero t = nat k"
    then have gt: "int (length ps_a) > k" and t: "length t = length ps_a"
      "\<forall>i < length ps_a. t ! i = 0 \<or> t ! i = 1" "count_zero t = nat k"
      by blast+
    have "\<And>c. map_sum id fst (choose_rand [(tc_a, ps_a, m_a)] k (g_a\<lparr>choices := \<lambda>i. c\<rparr>)) = Inr [(tc_a, ps_a, t)]
        \<longleftrightarrow> assign_at (ones (length ps_a)) c 0 = t"
      by (simp only: choose_rand_single[OF assms(1) gt]) simp
    then have "{c. valid_choice [0..<length ps_a] (nat k) c \<and>
                   map_sum id fst (choose_rand [(tc_a, ps_a, m_a)] k (g_a\<lparr>choices := \<lambda>i. c\<rparr>))
                     = Inr [(tc_a, ps_a, t)]}
        = {c. valid_choice [0..<length ps_a] (nat k) c \<and> assign_at (ones (length ps_a)) c 0 = t}"
      by simp
    with card_choices_for_mask[OF t] show "card {c. valid_choice [0..<length ps_a] (nat k) c \<and>
                   map_sum id fst (choose_rand [(tc_a, ps_a, m_a)] k (g_a\<lparr>choices := \<lambda>i. c\<rparr>))
                     = Inr [(tc_a, ps_a, t)]} = fact (nat k)"
      by simp
  qed
qed

theorem choose_rand_masks_witness:
  "(0::int) \<le> 2
   \<and> length two_tcs = 2
   \<and> valid_choice [0..<length (fst (snd (two_tcs ! 0)))] (nat 2)
         (choices draws_20 (draws_before two_tcs 2 0))
   \<and> \<not> int (length (fst (snd (two_tcs ! 1)))) > 2
   \<and> map_sum id fst (choose_rand two_tcs 2 draws_20)
       = Inr [(tc1, line_paths, [0, 1, 0]), (tc2, tie_paths, [0, 0])]
   \<and> card {c. valid_choice [0..<length line_paths] (nat 2) c \<and>
              map_sum id fst (choose_rand [(tc1, line_paths, [0, 0, 0])] 2 (draws_20\<lparr>choices := \<lambda>i. c\<rparr>))
                = Inr [(tc1, line_paths, [0, 1, 0])]} = fact (nat 2)"
proof -
  have h1: "(0::int) \<le> 2" by simp
  have v0: "valid_choice [0..<3] 2 [2, 0]" by (simp add: valid_choice_upt)
  have l3: "length line_paths = 3" by (simp add: line_paths_def)
  have v: "valid_choice [0..<length line_paths] (nat 2) [2, 0]"
    unfolding l3 using v0 by (simp only: nat_numeral)
  have l2: "length two_tcs = 2" by (simp add: two_tcs_def)
  have j0: "valid_choice [0..<length (fst (snd (two_tcs ! 0)))] (nat 2)
         (choices draws_20 (draws_before two_tcs 2 0))"
    using v by (simp add: two_tcs_def draws_20_def)
  have j1: "\<not> int (length (fst (snd (two_tcs ! 1)))) > 2"
    by (simp add: two_tcs_def tie_paths_def)
  have h2: "\<forall>j < length two_tcs. int (length (fst (snd (two_tcs ! j)))) > 2 \<longrightarrow>
           valid_choice [0..<length (fst (snd (two_tcs ! j)))] (nat 2)
             (choices draws_20 (draws_before two_tcs 2 j))"
  proof (intro allI impI)
    fix j assume j: "j < length two_tcs" and gt: "int (length (fst (snd (two_tcs ! j)))) > 2"
    from j l2 have "j = 0 \<or> j = 1" by auto
    with gt j1 have "j = 0" by auto
    then show "valid_choice [0..<length (fst (snd (two_tcs ! j)))] (nat 2)
             (choices draws_20 (draws_before two_tcs 2 j))"
      using j0 by simp
  qed
  have e: "map_sum id fst (choose_rand two_tcs 2 draws_20)
       = Inr [(tc1, line_paths, [0, 1, 0]), (tc2, tie_paths, [0, 0])]"
    by (simp add: two_tcs_def line_paths_def tie_paths_def draws_20_def next_choice_def
        assign_at_def ones_def unmask_def Let_def)
  have t: "int (length line_paths) > 2 \<and> length [0, 1, 0 :: int] = length line_paths
      \<and> (\<forall>i < length line_paths. [0, 1, 0 :: int] ! i = 0 \<or> [0, 1, 0 :: int] ! i = 1)
      \<and> count_zero [0, 1, 0] = nat 2"
    by (simp add: line_paths_def count_zero_def less_Suc_eq numeral_3_eq_3)
  from choose_rand_masks[OF h1 h2, where ps_a = line_paths and tc_a = tc1 and m_a = "[0, 0, 0]"
      and g_a = draws_20] t
  have "card {c. valid_choice [0..<length line_paths] (nat 2) c \<and>
              map_sum id fst (choose_rand [(tc1, line_paths, [0, 0, 0])] 2 (draws_20\<lparr>choices := \<lambda>i. c\<rparr>))
                = Inr [(tc1, line_paths, [0, 1, 0])]} = fact (nat 2)"
    by blast
  with h1 l2 j0 j1 e show ?thesis by blast
qed

subsection \<open>Shortest paths\<close>

lemma length_path_lengths [simp]: "length (path_lengths ps) = length ps"
  by (simp add: path_lengths_def)

lemma nth_path_lengths [simp]: "i < length ps \<Longrightarrow> path_lengths ps ! i = real (length (ps ! i))"
  by (simp add: path_lengths_def)

lemma argsort_ok_perm:
  assumes "argsort_ok vals ind"
  shows "distinct ind" "set ind = {0..<length vals}" "length ind = length vals"
proof -
  from assms have m: "mset ind = mset [0..<length vals]" by (simp add: argsort_ok_def)
  show "distinct ind" using m by (metis distinct_upt mset_eq_imp_distinct_iff)
  show "set ind = {0..<length vals}" using m by (metis mset_eq_setD set_upt)
  show "length ind = length vals" using m by (metis length_upt mset_eq_length minus_nat.diff_0)
qed

lemma shortest_round_spec:
  assumes k: "0 \<le> k" and ok: "argsort_ok (path_lengths ps) (argsort (path_lengths ps))"
  defines "ind \<equiv> argsort (path_lengths ps)"
  defines "m' \<equiv> snd (shortest_round argsort ps k)"
  shows "length m' = length ps"
    and "\<forall>i < length ps. m' ! i = (if i \<in> set (take (min (nat k) (length ps)) ind) then 0 else 1)"
    and "count_zero m' = min (nat k) (length ps)"
    and "\<forall>i < length ps. \<forall>j < length ps. m' ! i = 0 \<longrightarrow> m' ! j = 1 \<longrightarrow> length (ps ! i) \<le> length (ps ! j)"
proof -
  let ?lens = "path_lengths ps"
  let ?c = "min (nat k) (length ps)"
  from argsort_ok_perm[OF ok] have d: "distinct ind" and s: "set ind = {0..<length ps}" and l: "length ind = length ps"
    by (simp_all add: ind_def)
  have m': "m' = assign_at (ones (length ps)) (take ?c ind) 0"
    using slice_to_nonneg[OF k, of ind] l
    by (simp add: m'_def shortest_round_def Let_def ind_def ones_def)
  show len: "length m' = length ps" by (simp add: m' ones_def)
  show nth: "\<forall>i < length ps. m' ! i = (if i \<in> set (take ?c ind) then 0 else 1)"
    by (simp add: m' nth_assign_at ones_def)
  have sub: "set (take ?c ind) \<subseteq> {0..<length ps}" using s set_take_subset by fastforce
  show "count_zero m' = ?c"
    using count_zero_assign_ones[OF distinct_take[OF d] sub] l by (simp add: m')
  show "\<forall>i < length ps. \<forall>j < length ps. m' ! i = 0 \<longrightarrow> m' ! j = 1 \<longrightarrow> length (ps ! i) \<le> length (ps ! j)"
  proof (intro allI impI)
    fix i j assume i: "i < length ps" and j: "j < length ps" and mi: "m' ! i = 0" and mj: "m' ! j = 1"
    from nth i mi have it: "i \<in> set (take ?c ind)" by (auto split: if_splits)
    from nth j mj have "j \<notin> set (take ?c ind)" by (auto split: if_splits)
    moreover have "j \<in> set (take ?c ind @ drop ?c ind)" using s j by simp
    ultimately have jd: "j \<in> set (drop ?c ind)" by (simp only: set_append) blast
    have "sorted (map (\<lambda>i. ?lens ! i) (take ?c ind @ drop ?c ind))"
      using ok by (simp add: argsort_ok_def ind_def)
    then have "\<forall>x\<in>set (take ?c ind). \<forall>y\<in>set (drop ?c ind). ?lens ! x \<le> ?lens ! y"
      by (simp only: map_append sorted_append) auto
    with it jd have "?lens ! i \<le> ?lens ! j" by blast
    with i j show "length (ps ! i) \<le> length (ps ! j)" by simp
  qed
qed

lemma line_lens: "path_lengths line_paths = [4, 5, 6]"
  by (simp add: line_paths_def path_lengths_def)

lemma argsort_line: "argsort_by_index [4, 5, 6] = [0, 1, 2]"
  by (simp add: argsort_by_index_def upt3)

lemma order_line: "length_index_order line_paths = [0, 1, 2]"
  by (simp add: length_index_order_def line_paths_def upt3)

lemma order_tie: "length_index_order tie_paths = [0, 1]"
  by (simp add: length_index_order_def tie_paths_def upt2)

lemma tie_lens: "path_lengths tie_paths = [3, 3]"
  by (simp add: tie_paths_def path_lengths_def)

lemma numpy_argsort_line: "numpy_argsort [4, 5, 6] = [0, 1, 2]"
  by code_simp

lemma numpy_argsort_tie: "numpy_argsort [3, 3] = [0, 1]"
  by code_simp

lemma fan_lens: "path_lengths fan_paths = replicate 20 3"
  by code_simp

lemma numpy_argsort_fan:
  "numpy_argsort (replicate 20 3)
     = [0, 17, 16, 15, 14, 13, 12, 11, 10, 9, 8, 7, 6, 5, 4, 3, 2, 1, 18, 19]"
  by code_simp

lemma order_fan: "take 2 (length_index_order fan_paths) = [0, 1]"
  by code_simp

lemma k_shortest_paths_nth:
  assumes "j < length pptc" and "pptc ! j = (tc, ps, m)"
  shows "fst (k_shortest_paths argsort pptc k) ! j = (tc, ps, snd (shortest_round argsort ps k))"
    and "snd (k_shortest_paths argsort pptc k) ! j = (tc, argsort (path_lengths ps))"
  using assms by (simp_all add: k_shortest_paths_def shortest_round_def Let_def)

text \<open>
  C4, as stated, fails: the order of equal lengths is the one \<^verbatim>\<open>argsort\<close> returns, and
  the sort of numpy does not keep equal values in the order of their index when it
  partitions, that is on more than 17 values. With twenty candidate paths of three
  nodes each and \<open>k = 2\<close>, \<^verbatim>\<open>argsort\<close> returns \<open>0, 17, 16, \<dots>, 1, 18, 19\<close> and the visible
  paths are those of index 0 and 17, where the order by length and index has the
  indices 0 and 1 first. The result of \<^verbatim>\<open>argsort\<close> is a permutation that sorts the
  lengths, so the input is one the amended statement covers.
\<close>

theorem k_shortest_paths_ties_counterexample:
  "path_lengths fan_paths = replicate 20 3
   \<and> k_shortest_paths numpy_argsort [(tc1, fan_paths, replicate 20 0)] 2
       = ([(tc1, fan_paths, [0, 1, 1, 1, 1, 1, 1, 1, 1, 1, 1, 1, 1, 1, 1, 1, 1, 0, 1, 1])],
          [(tc1, [0, 17, 16, 15, 14, 13, 12, 11, 10, 9, 8, 7, 6, 5, 4, 3, 2, 1, 18, 19])])
   \<and> take 2 (length_index_order fan_paths) = [0, 1]
   \<and> argsort_ok (path_lengths fan_paths) (numpy_argsort (path_lengths fan_paths))"
proof -
  have ok: "argsort_ok (path_lengths fan_paths) (numpy_argsort (path_lengths fan_paths))"
    unfolding fan_lens numpy_argsort_fan by code_simp
  have r: "shortest_round numpy_argsort fan_paths 2
      = ([0, 17, 16, 15, 14, 13, 12, 11, 10, 9, 8, 7, 6, 5, 4, 3, 2, 1, 18, 19],
         [0, 1, 1, 1, 1, 1, 1, 1, 1, 1, 1, 1, 1, 1, 1, 1, 1, 0, 1, 1])"
    unfolding shortest_round_def fan_lens numpy_argsort_fan by code_simp
  have "k_shortest_paths numpy_argsort [(tc1, fan_paths, replicate 20 0)] 2
       = ([(tc1, fan_paths, [0, 1, 1, 1, 1, 1, 1, 1, 1, 1, 1, 1, 1, 1, 1, 1, 1, 0, 1, 1])],
          [(tc1, [0, 17, 16, 15, 14, 13, 12, 11, 10, 9, 8, 7, 6, 5, 4, 3, 2, 1, 18, 19])])"
    by (simp add: k_shortest_paths_def r)
  with fan_lens order_fan ok show ?thesis by (intro conjI)
qed

text \<open>
  C4, amended. Let \<open>0 \<le> k\<close>. \<^verbatim>\<open>k_shortest_paths(pptc, k)\<close> keeps every traffic class of
  the PPTC with its candidate paths, in place, and returns for each the order
  \<^verbatim>\<open>argsort(lens)\<close>. For every traffic class with \<open>n\<close> candidate paths for which
  \<^verbatim>\<open>argsort\<close> returns a permutation that sorts the lengths, the new mask has length \<open>n\<close>
  and entries 0 and 1, exactly \<open>min(k, n)\<close> paths are visible, they are the first
  \<open>min(k, n)\<close> indices of \<^verbatim>\<open>argsort(lens)\<close>, no visible path is longer than a masked one,
  and every other candidate is masked. Ties among equal lengths are broken as
  \<^verbatim>\<open>argsort\<close> orders them; when it orders them by index, the visible paths are the
  first \<open>min(k, n)\<close> of the order by length and index.
\<close>

theorem k_shortest_paths_visible:
  assumes "0 \<le> k"
  shows "length (fst (k_shortest_paths argsort pptc k)) = length pptc
    \<and> length (snd (k_shortest_paths argsort pptc k)) = length pptc
    \<and> (\<forall>j < length pptc. \<exists>tc ps m m'.
          pptc ! j = (tc, ps, m)
        \<and> fst (k_shortest_paths argsort pptc k) ! j = (tc, ps, m')
        \<and> snd (k_shortest_paths argsort pptc k) ! j = (tc, argsort (path_lengths ps))
        \<and> length m' = length ps
        \<and> (argsort_ok (path_lengths ps) (argsort (path_lengths ps)) \<longrightarrow>
              (\<forall>i < length ps. m' ! i = 0 \<or> m' ! i = 1)
            \<and> count_zero m' = min (nat k) (length ps)
            \<and> (\<forall>i < length ps. \<forall>i' < length ps.
                  m' ! i = 0 \<longrightarrow> m' ! i' = 1 \<longrightarrow> length (ps ! i) \<le> length (ps ! i'))
            \<and> (\<forall>i < length ps. m' ! i = 0 \<longleftrightarrow>
                  i \<in> set (take (min (nat k) (length ps)) (argsort (path_lengths ps))))
            \<and> (argsort (path_lengths ps) = length_index_order ps \<longrightarrow>
                  (\<forall>i < length ps. m' ! i = 0 \<longleftrightarrow>
                     i \<in> set (take (min (nat k) (length ps)) (length_index_order ps))))))"
proof (intro conjI allI impI)
  show "length (fst (k_shortest_paths argsort pptc k)) = length pptc"
    by (simp add: k_shortest_paths_def)
  show "length (snd (k_shortest_paths argsort pptc k)) = length pptc"
    by (simp add: k_shortest_paths_def)
next
  fix j assume j: "j < length pptc"
  obtain tc ps m where e: "pptc ! j = (tc, ps, m)" by (cases "pptc ! j")
  let ?m' = "snd (shortest_round argsort ps k)"
  note n = k_shortest_paths_nth[OF j e, of argsort k]
  have len: "length ?m' = length ps" by (simp add: shortest_round_def Let_def ones_def)
  have cond: "argsort_ok (path_lengths ps) (argsort (path_lengths ps)) \<longrightarrow>
              (\<forall>i < length ps. ?m' ! i = 0 \<or> ?m' ! i = 1)
            \<and> count_zero ?m' = min (nat k) (length ps)
            \<and> (\<forall>i < length ps. \<forall>i' < length ps.
                  ?m' ! i = 0 \<longrightarrow> ?m' ! i' = 1 \<longrightarrow> length (ps ! i) \<le> length (ps ! i'))
            \<and> (\<forall>i < length ps. ?m' ! i = 0 \<longleftrightarrow>
                  i \<in> set (take (min (nat k) (length ps)) (argsort (path_lengths ps))))
            \<and> (argsort (path_lengths ps) = length_index_order ps \<longrightarrow>
                  (\<forall>i < length ps. ?m' ! i = 0 \<longleftrightarrow>
                     i \<in> set (take (min (nat k) (length ps)) (length_index_order ps))))"
  proof
    assume ok: "argsort_ok (path_lengths ps) (argsort (path_lengths ps))"
    note sr = shortest_round_spec[where argsort=argsort and ps=ps and k=k, OF assms ok]
    have nth: "\<forall>i < length ps. ?m' ! i = 0 \<longleftrightarrow>
          i \<in> set (take (min (nat k) (length ps)) (argsort (path_lengths ps)))"
      using sr(2) by simp
    have bin: "\<forall>i < length ps. ?m' ! i = 0 \<or> ?m' ! i = 1" using sr(2) by simp
    have last: "argsort (path_lengths ps) = length_index_order ps \<longrightarrow>
          (\<forall>i < length ps. ?m' ! i = 0 \<longleftrightarrow>
             i \<in> set (take (min (nat k) (length ps)) (length_index_order ps)))"
      using nth by simp
    from bin sr(3) sr(4) nth last
    show "(\<forall>i < length ps. ?m' ! i = 0 \<or> ?m' ! i = 1)
            \<and> count_zero ?m' = min (nat k) (length ps)
            \<and> (\<forall>i < length ps. \<forall>i' < length ps.
                  ?m' ! i = 0 \<longrightarrow> ?m' ! i' = 1 \<longrightarrow> length (ps ! i) \<le> length (ps ! i'))
            \<and> (\<forall>i < length ps. ?m' ! i = 0 \<longleftrightarrow>
                  i \<in> set (take (min (nat k) (length ps)) (argsort (path_lengths ps))))
            \<and> (argsort (path_lengths ps) = length_index_order ps \<longrightarrow>
                  (\<forall>i < length ps. ?m' ! i = 0 \<longleftrightarrow>
                     i \<in> set (take (min (nat k) (length ps)) (length_index_order ps))))"
      by (intro conjI)
  qed
  from e n len cond
  show "\<exists>tc ps m m'.
          pptc ! j = (tc, ps, m)
        \<and> fst (k_shortest_paths argsort pptc k) ! j = (tc, ps, m')
        \<and> snd (k_shortest_paths argsort pptc k) ! j = (tc, argsort (path_lengths ps))
        \<and> length m' = length ps
        \<and> (argsort_ok (path_lengths ps) (argsort (path_lengths ps)) \<longrightarrow>
              (\<forall>i < length ps. m' ! i = 0 \<or> m' ! i = 1)
            \<and> count_zero m' = min (nat k) (length ps)
            \<and> (\<forall>i < length ps. \<forall>i' < length ps.
                  m' ! i = 0 \<longrightarrow> m' ! i' = 1 \<longrightarrow> length (ps ! i) \<le> length (ps ! i'))
            \<and> (\<forall>i < length ps. m' ! i = 0 \<longleftrightarrow>
                  i \<in> set (take (min (nat k) (length ps)) (argsort (path_lengths ps))))
            \<and> (argsort (path_lengths ps) = length_index_order ps \<longrightarrow>
                  (\<forall>i < length ps. m' ! i = 0 \<longleftrightarrow>
                     i \<in> set (take (min (nat k) (length ps)) (length_index_order ps)))))"
    by blast
qed

theorem k_shortest_paths_visible_witness:
  "(0::int) \<le> 1
   \<and> length two_tcs = 2
   \<and> two_tcs ! 1 = (tc2, tie_paths, [1, 1])
   \<and> argsort_ok (path_lengths tie_paths) (numpy_argsort (path_lengths tie_paths))
   \<and> numpy_argsort (path_lengths tie_paths) = length_index_order tie_paths
   \<and> k_shortest_paths numpy_argsort two_tcs 1
       = ([(tc1, line_paths, [0, 1, 1]), (tc2, tie_paths, [0, 1])],
          [(tc1, [0, 1, 2]), (tc2, [0, 1])])
   \<and> count_zero (snd (snd (fst (k_shortest_paths numpy_argsort two_tcs 1) ! 1)))
       = min (nat 1) (length tie_paths)
   \<and> take (min (nat 1) (length tie_paths)) (length_index_order tie_paths) = [0]"
proof -
  have h1: "(0::int) \<le> 1" by simp
  have l2: "length two_tcs = 2" by (simp add: two_tcs_def)
  have e1: "two_tcs ! 1 = (tc2, tie_paths, [1, 1])" by (simp add: two_tcs_def)
  have ok: "argsort_ok (path_lengths tie_paths) (numpy_argsort (path_lengths tie_paths))"
    by (simp add: tie_lens numpy_argsort_tie argsort_ok_def upt2)
  have ord: "numpy_argsort (path_lengths tie_paths) = length_index_order tie_paths"
    by (simp add: tie_lens numpy_argsort_tie order_tie)
  have r1: "shortest_round numpy_argsort line_paths 1 = ([0, 1, 2], [0, 1, 1])"
    unfolding shortest_round_def line_lens numpy_argsort_line by code_simp
  have r2: "shortest_round numpy_argsort tie_paths 1 = ([0, 1], [0, 1])"
    unfolding shortest_round_def tie_lens numpy_argsort_tie by code_simp
  have r: "k_shortest_paths numpy_argsort two_tcs 1
       = ([(tc1, line_paths, [0, 1, 1]), (tc2, tie_paths, [0, 1])],
          [(tc1, [0, 1, 2]), (tc2, [0, 1])])"
    by (simp add: k_shortest_paths_def two_tcs_def r1 r2)
  from k_shortest_paths_visible[OF h1, of numpy_argsort two_tcs] l2
  obtain tc ps m m' where t: "two_tcs ! 1 = (tc, ps, m)"
      "fst (k_shortest_paths numpy_argsort two_tcs 1) ! 1 = (tc, ps, m')"
      "argsort_ok (path_lengths ps) (numpy_argsort (path_lengths ps)) \<longrightarrow>
         count_zero m' = min (nat 1) (length ps)"
    by (elim conjE allE[where x = 1]) auto
  from t(1) e1 have ps: "ps = tie_paths" by simp
  from t(3) ok have "count_zero m' = min (nat 1) (length tie_paths)" unfolding ps by simp
  with t(2) have c: "count_zero (snd (snd (fst (k_shortest_paths numpy_argsort two_tcs 1) ! 1)))
       = min (nat 1) (length tie_paths)" by simp
  have lt: "length tie_paths = 2" by (simp add: tie_paths_def)
  have tk: "take (min (nat 1) (length tie_paths)) (length_index_order tie_paths) = [0]"
    by (simp add: order_tie lt)
  from h1 l2 e1 ok ord r c tk show ?thesis by (intro conjI)
qed

subsection \<open>Expelling paths that carry no flow\<close>

lemma any_flow_iff: "any_flow row \<longleftrightarrow> (\<exists>v. Var v \<in> set row \<and> v \<noteq> 0)"
proof -
  have "(\<exists>x\<in>set row. case x of Var v \<Rightarrow> v \<noteq> 0 | Const c \<Rightarrow> False) \<longleftrightarrow> (\<exists>v. Var v \<in> set row \<and> v \<noteq> 0)"
  proof
    assume "\<exists>x\<in>set row. case x of Var v \<Rightarrow> v \<noteq> 0 | Const c \<Rightarrow> False"
    then obtain x where x: "x \<in> set row" "case x of Var v \<Rightarrow> v \<noteq> 0 | Const c \<Rightarrow> False" by blast
    show "\<exists>v. Var v \<in> set row \<and> v \<noteq> 0"
    proof (cases x)
      case (Var v)
      with x show ?thesis by auto
    next
      case (Const c)
      with x show ?thesis by simp
    qed
  next
    assume "\<exists>v. Var v \<in> set row \<and> v \<noteq> 0"
    then obtain v where "Var v \<in> set row" "v \<noteq> 0" by blast
    then show "\<exists>x\<in>set row. case x of Var v \<Rightarrow> v \<noteq> 0 | Const c \<Rightarrow> False"
      by (intro bexI[of _ "Var v"]) simp_all
  qed
  then show ?thesis by (simp add: any_flow_def list_ex_iff)
qed

lemma expel_no_flow_spec:
  assumes "\<forall>j < count_zero m. row (ii + j) \<noteq> None"
  shows "\<exists>m'. expel_no_flow row ii m = Inr m' \<and> length m' = length m \<and>
     (\<forall>i < length m. (m ! i \<noteq> 0 \<longrightarrow> m' ! i = m ! i) \<and>
        (m ! i = 0 \<longrightarrow> m' ! i = (if any_flow (the (row (ii + count_zero (take i m)))) then 0 else 1)))"
  using assms
proof (induction m arbitrary: ii)
  case Nil
  then show ?case by simp
next
  case (Cons a m)
  show ?case
  proof (cases "a = 0")
    case True
    have "0 < count_zero (a # m)" using True by (simp add: count_zero_Cons)
    with Cons.prems have "row (ii + 0) \<noteq> None" by blast
    then obtain xs where xs: "row ii = Some xs" by auto
    have "\<forall>j < count_zero m. row ((ii + 1) + j) \<noteq> None"
    proof (intro allI impI)
      fix j assume "j < count_zero m"
      then have "Suc j < count_zero (a # m)" using True by (simp add: count_zero_Cons)
      with Cons.prems have "row (ii + Suc j) \<noteq> None" by blast
      then show "row ((ii + 1) + j) \<noteq> None" by simp
    qed
    from Cons.IH[OF this] obtain m' where m':
      "expel_no_flow row (ii + 1) m = Inr m'" "length m' = length m"
      "\<forall>i < length m. (m ! i \<noteq> 0 \<longrightarrow> m' ! i = m ! i) \<and>
        (m ! i = 0 \<longrightarrow> m' ! i = (if any_flow (the (row ((ii + 1) + count_zero (take i m)))) then 0 else 1))"
      by blast
    let ?r = "(if \<not> any_flow xs then 1 else a) # m'"
    have e: "expel_no_flow row ii (a # m) = Inr ?r" using True xs m'(1) by simp
    have "\<forall>i < length (a # m). ((a # m) ! i \<noteq> 0 \<longrightarrow> ?r ! i = (a # m) ! i) \<and>
        ((a # m) ! i = 0 \<longrightarrow> ?r ! i = (if any_flow (the (row (ii + count_zero (take i (a # m))))) then 0 else 1))"
    proof (intro allI impI)
      fix i assume i: "i < length (a # m)"
      show "((a # m) ! i \<noteq> 0 \<longrightarrow> ?r ! i = (a # m) ! i) \<and>
        ((a # m) ! i = 0 \<longrightarrow> ?r ! i = (if any_flow (the (row (ii + count_zero (take i (a # m))))) then 0 else 1))"
      proof (cases i)
        case 0
        then show ?thesis using True xs by (simp add: count_zero_def)
      next
        case (Suc i')
        then have "i' < length m" using i by simp
        with m'(3) show ?thesis using Suc True by (simp add: count_zero_Cons)
      qed
    qed
    with e m'(2) show ?thesis by simp
  next
    case False
    from Cons.prems False have "\<forall>j < count_zero m. row (ii + j) \<noteq> None" by (simp add: count_zero_Cons)
    from Cons.IH[OF this] obtain m' where m':
      "expel_no_flow row ii m = Inr m'" "length m' = length m"
      "\<forall>i < length m. (m ! i \<noteq> 0 \<longrightarrow> m' ! i = m ! i) \<and>
        (m ! i = 0 \<longrightarrow> m' ! i = (if any_flow (the (row (ii + count_zero (take i m)))) then 0 else 1))"
      by blast
    have e: "expel_no_flow row ii (a # m) = Inr (a # m')" using False m'(1) by simp
    have "\<forall>i < length (a # m). ((a # m) ! i \<noteq> 0 \<longrightarrow> (a # m') ! i = (a # m) ! i) \<and>
        ((a # m) ! i = 0 \<longrightarrow> (a # m') ! i = (if any_flow (the (row (ii + count_zero (take i (a # m))))) then 0 else 1))"
    proof (intro allI impI)
      fix i assume i: "i < length (a # m)"
      show "((a # m) ! i \<noteq> 0 \<longrightarrow> (a # m') ! i = (a # m) ! i) \<and>
        ((a # m) ! i = 0 \<longrightarrow> (a # m') ! i = (if any_flow (the (row (ii + count_zero (take i (a # m))))) then 0 else 1))"
      proof (cases i)
        case 0
        then show ?thesis using False by simp
      next
        case (Suc i')
        then have "i' < length m" using i by simp
        with m'(3) show ?thesis using Suc False by (simp add: count_zero_Cons)
      qed
    qed
    with e m'(2) show ?thesis by simp
  qed
qed

text \<open>
  C6. In mode \<open>no_flow\<close>, when the tensor has a row for every visible path,
  \<^verbatim>\<open>_expel\<close> returns a mask of the same length and draws nothing; an entry other than 0
  is unchanged; a visible entry at position \<open>i\<close> becomes 1 if and only if every flow
  variable of row \<open>j\<close> of the traffic class is zero, where \<open>j\<close> is the number of visible
  entries before \<open>i\<close>, and stays 0 otherwise.
\<close>

theorem expel_no_flow_dense:
  assumes "\<forall>j < count_zero m. xps tcid j \<noteq> None"
  shows "\<exists>m'. expel tcid m xps Expel_no_flow g = Inr (m', g) \<and> length m' = length m \<and>
     (\<forall>i < length m.
        (m ! i \<noteq> 0 \<longrightarrow> m' ! i = m ! i) \<and>
        (m ! i = 0 \<longrightarrow> (m' ! i = 0 \<or> m' ! i = 1) \<and>
           (m' ! i = 1 \<longleftrightarrow>
              (\<forall>v. Var v \<in> set (the (xps tcid (count_zero (take i m)))) \<longrightarrow> v = 0))))"
proof -
  from assms have "\<forall>j < count_zero m. xps tcid (0 + j) \<noteq> None" by simp
  from expel_no_flow_spec[OF this] obtain m' where m':
      "expel_no_flow (xps tcid) 0 m = Inr m'" "length m' = length m"
      "\<forall>i < length m. (m ! i \<noteq> 0 \<longrightarrow> m' ! i = m ! i) \<and>
        (m ! i = 0 \<longrightarrow> m' ! i = (if any_flow (the (xps tcid (0 + count_zero (take i m)))) then 0 else 1))"
    by blast
  have "expel tcid m xps Expel_no_flow g = Inr (m', g)" using m'(1) by (simp add: expel_def)
  moreover have "\<forall>i < length m.
        (m ! i \<noteq> 0 \<longrightarrow> m' ! i = m ! i) \<and>
        (m ! i = 0 \<longrightarrow> (m' ! i = 0 \<or> m' ! i = 1) \<and>
           (m' ! i = 1 \<longleftrightarrow>
              (\<forall>v. Var v \<in> set (the (xps tcid (count_zero (take i m)))) \<longrightarrow> v = 0)))"
    using m'(3) by (auto simp: any_flow_iff)
  ultimately show ?thesis using m'(2) by blast
qed

theorem expel_no_flow_dense_witness:
  "count_zero [0, 1, 0, 0] = 3
   \<and> flows_7 7 0 \<noteq> None \<and> flows_7 7 1 \<noteq> None \<and> flows_7 7 2 \<noteq> None
   \<and> expel 7 [0, 1, 0, 0] flows_7 Expel_no_flow draws_21 = Inr ([1, 1, 0, 1], draws_21)
   \<and> count_zero (take 2 [0, 1, 0, 0]) = 1
   \<and> the (flows_7 7 1) = [Var 2]"
proof -
  have h: "\<forall>j < count_zero [0, 1, 0, 0]. flows_7 7 j \<noteq> None"
    by (simp add: count_zero_def flows_7_def)
  have r: "count_zero [0, 1, 0, 0] = 3
      \<and> flows_7 7 0 \<noteq> None \<and> flows_7 7 1 \<noteq> None \<and> flows_7 7 2 \<noteq> None"
    by (simp add: count_zero_def flows_7_def)
  have e: "expel 7 [0, 1, 0, 0] flows_7 Expel_no_flow draws_21 = Inr ([1, 1, 0, 1], draws_21)"
    by (simp add: expel_def flows_7_def any_flow_def)
  have c: "count_zero (take 2 [0, 1, 0, 0]) = 1 \<and> the (flows_7 7 1) = [Var 2]"
    by (simp add: count_zero_def flows_7_def)
  from expel_no_flow_dense[where m = "[0, 1, 0, 0]" and xps = flows_7 and tcid = 7
      and g = draws_21, OF h] r e c
  show ?thesis by blast
qed

subsection \<open>Replacing paths at random\<close>

text \<open>
  C2 at a failing input: one explored mask \<open>[0, 0, 1]\<close>, the mask \<open>[0, 1, 1]\<close>,
  \<open>num_paths = 2\<close>, and the draws \<open>[2]\<close> then \<open>[1]\<close>. The first candidate
  \<open>[0, 1, 0]\<close> is not explored, yet \<^verbatim>\<open>_replace\<close> draws again, and it stops at the second
  candidate \<open>[0, 0, 1]\<close>, which is explored: the loop runs while the mask is \<^emph>\<open>not\<close> in
  the explored set.
\<close>

theorem replace_random_redraws_unexplored:
  "in_explored (assign_at [0, 1, 1] [2] 0) [Arr [0, 0, 1]] = Inr False
   \<and> replace [Arr [0, 0, 1]] [0, 1, 1] 2 Replace_random draws_21
       = Inr ([0, 0, 1], draws_21\<lparr>choices := \<lambda>i. choices draws_21 (Suc (Suc i))\<rparr>)
   \<and> in_explored [0, 0, 1] [Arr [0, 0, 1]] = Inr True"
  by (simp add: replace_def count_zero_def next_choice_def assign_at_def bitwise_xor_def
      draws_21_def Let_def)

subsection \<open>Iterative selection\<close>

lemma max_paths_eq: "map (\<lambda>(tc, ps, m). length ps) p = map (\<lambda>(tc, ps, m). length ps) q \<Longrightarrow> max_paths p = max_paths q"
  by (simp add: max_paths_def)

lemma max_paths_k_shortest: "max_paths (fst (k_shortest_paths argsort pptc k)) = max_paths pptc"
  by (rule max_paths_eq) (simp add: k_shortest_paths_def case_prod_unfold)

lemma k_resource_paths_lengths:
  "k_resource_paths argsort pptc k w topo = Inr (pptc', inds) \<Longrightarrow>
     map (\<lambda>(tc, ps, m). length ps) pptc' = map (\<lambda>(tc, ps, m). length ps) pptc"
proof (induction pptc arbitrary: pptc' inds)
  case Nil
  then show ?case by simp
next
  case (Cons e rest)
  obtain tc ps m where e: "e = (tc, ps, m)" by (cases e)
  from Cons.prems obtain rest' inds' msk where
    r: "k_resource_paths argsort rest k w topo = Inr (rest', inds')" and p: "pptc' = (tc, ps, msk) # rest'"
    by (auto simp: e Let_def split: sum.splits)
  from Cons.IH[OF r] p show ?case by (simp add: e)
qed

lemma iterative_loop_skip:
  "max_iter \<le> i \<or> diff \<le> epsilon \<or> mp \<le> k \<Longrightarrow>
     iterative_loop solver indices max_iter epsilon mp i diff old_val k all_pptc opt = Inr (all_pptc, opt)"
  by (subst iterative_loop.simps) auto

text \<open>
  C10. When \<^verbatim>\<open>select_iterative\<close> reaches its loop, that is when \<open>sort_mode\<close> is \<open>len\<close>,
  or is \<open>resource\<close> and the scoring of the paths raises nothing, and the body of the loop
  never runs because \<open>max_iter \<le> 0\<close>, or \<open>epsilon \<ge> 1024\<close>, or no traffic class has more
  than 5 candidate paths, then the function fails at \<^verbatim>\<open>opt.is_solved()\<close> with the
  unbound-name error for \<open>opt\<close>: it returns no result and does not raise
  \<open>SOLException\<close>.
\<close>

theorem select_iterative_unbound_opt:
  assumes "sort_mode = ''len'' \<or>
      (sort_mode = ''resource'' \<and>
        (\<exists>r. k_resource_paths argsort all_pptc 5 (res_weights apps) topo = Inr r))"
    and "max_iter \<le> 0 \<or> epsilon \<ge> 1024 \<or> max_paths all_pptc \<le> 5"
  shows "select_iterative argsort apps topo all_pptc solver max_iter epsilon sort_mode
     = Inl UnboundLocalError"
proof -
  from assms(1) obtain pptc1 indices where
    pre: "(if sort_mode = ''len'' then Inr (k_shortest_paths argsort all_pptc 5)
            else if sort_mode = ''resource''
            then k_resource_paths argsort all_pptc 5 (res_weights apps) topo
            else Inl InvalidConfigException) = Inr (pptc1, indices)"
    and mp: "max_paths pptc1 = max_paths all_pptc"
  proof
    assume l: "sort_mode = ''len''"
    obtain pptc1 indices where k: "k_shortest_paths argsort all_pptc 5 = (pptc1, indices)"
      by (cases "k_shortest_paths argsort all_pptc 5")
    from max_paths_k_shortest[of argsort all_pptc 5] k have "max_paths pptc1 = max_paths all_pptc" by simp
    with l k that show thesis by simp
  next
    assume r: "sort_mode = ''resource'' \<and>
        (\<exists>r. k_resource_paths argsort all_pptc 5 (res_weights apps) topo = Inr r)"
    then obtain pptc1 indices where
      k: "k_resource_paths argsort all_pptc 5 (res_weights apps) topo = Inr (pptc1, indices)"
      by (metis surj_pair)
    from max_paths_eq[OF k_resource_paths_lengths[OF k]] have "max_paths pptc1 = max_paths all_pptc" .
    with r k that show thesis by simp
  qed
  from assms(2) mp have "max_iter \<le> 0 \<or> (1024::real) \<le> epsilon \<or> int (max_paths pptc1) \<le> 5"
    by auto
  from iterative_loop_skip[OF this]
  have "iterative_loop solver indices max_iter epsilon (int (max_paths pptc1)) 0 1024 0 5 pptc1 None
      = Inr (pptc1, None)" .
  with pre show ?thesis by (simp add: select_iterative_def)
qed

theorem select_iterative_unbound_opt_witness:
  "max_paths two_tcs \<le> 5
   \<and> select_iterative argsort_by_index ([] :: string app list) unit_topology two_tcs solved_1 10 0.1 ''len''
      = Inl UnboundLocalError"
proof -
  have m: "max_paths two_tcs \<le> 5"
    by (simp add: max_paths_def two_tcs_def line_paths_def tie_paths_def)
  from select_iterative_unbound_opt[where sort_mode = "''len''" and all_pptc = two_tcs
      and max_iter = 10 and epsilon = "0.1" and argsort = argsort_by_index
      and apps = "[] :: string app list" and topo = unit_topology and solver = solved_1] m
  show ?thesis by simp
qed

subsection \<open>Explored masks in simulated annealing\<close>









text \<open>
  In the feasibility phase the array appended to \<^verbatim>\<open>explored[tc]\<close> is the last array of the
  list itself: the list then holds the same array twice.
\<close>

lemma resample_tc_appends_same_array:
  assumes "resample_tc num_paths rmode h s g = Inr (h', s', g')"
  shows "explored_refs s' = explored_refs s @ [last (explored_refs s)]"
  using assms
  by (auto simp: resample_tc_def Let_def split: list.splits sum.splits)




end
